theory Spec2Isabelle
  imports Complex_Main "HOL-Library.Sublist"
begin

section \<open>Python values and built-ins used by \<open>workout_app.py\<close>\<close>

text \<open>
  The three derivations of \<open>workout_app.py\<close> (\<open>load_and_process_history\<close>,
  \<open>calculate_overall_completion\<close>, \<open>find_next_workout_and_exercises\<close>) are pure
  functions of \<open>all_sheets_data\<close>, a dict from sheet title to the grid that
  \<open>get_all_values\<close> returned: a list of rows, each a list of strings.

  \<^item> A Python \<open>str\<close> is a \<open>string\<close>; a \<open>char\<close> stands for the code point of the same
    number, so the model covers the strings whose code points are below 256.
  \<^item> A dict is an association list in insertion order (Python dicts iterate in insertion
    order); its keys are distinct.
  \<^item> Python integers are unbounded; every integer of these functions is a count, an
    index or a sum of such, so they are \<open>nat\<close>, except \<open>last_exercise_row_index\<close>,
    which starts at \<open>-1\<close> and is an \<open>int\<close>.
  \<^item> An uncaught exception is the value \<open>Inl e\<close> of a result \<open>py_error + 'a\<close>.
\<close>

datatype py_error = IndexError | ValueError

type_synonym row = "string list"
type_synonym snapshot = "row list"
type_synonym sheets_data = "(string \<times> snapshot) list"

text \<open>\<open>xs[i]\<close> for an index \<open>i \<ge> 0\<close>: IndexError out of range.\<close>

definition py_get :: "'a list \<Rightarrow> nat \<Rightarrow> py_error + 'a" where
  "py_get xs i = (if i < length xs then Inr (xs ! i) else Inl IndexError)"

text \<open>\<open>needle in haystack\<close> on strings: the needle occurs as a contiguous substring.\<close>

fun py_in :: "'a list \<Rightarrow> 'a list \<Rightarrow> bool" where
  "py_in n [] = (n = [])"
| "py_in n (c # cs) = (prefix n (c # cs) \<or> py_in n cs)"

definition code_point :: "char \<Rightarrow> nat" where
  "code_point c = of_char c"

text \<open>
  \<open>str.isspace\<close>, \<open>str.isdigit\<close> and \<open>str.lower\<close> on the code points below 256.
  \<open>isspace\<close> holds of TAB..CR, FS..US, the space, NEL (0x85) and NBSP (0xA0);
  \<open>isdigit\<close> holds of the decimal digits and of the superscripts 0xB2, 0xB3, 0xB9,
  which \<open>int\<close> refuses; \<open>lower\<close> moves A..Z and 0xC0..0xDE (but the multiplication sign 0xD7)
  up by 32.
\<close>

definition py_isspace :: "char \<Rightarrow> bool" where
  "py_isspace c = (let n = code_point c in
     (9 \<le> n \<and> n \<le> 13) \<or> (28 \<le> n \<and> n \<le> 32) \<or> n = 133 \<or> n = 160)"

definition py_isdecimal :: "char \<Rightarrow> bool" where
  "py_isdecimal c = (let n = code_point c in 48 \<le> n \<and> n \<le> 57)"

definition py_isdigit :: "char \<Rightarrow> bool" where
  "py_isdigit c = (let n = code_point c in
     (48 \<le> n \<and> n \<le> 57) \<or> n = 178 \<or> n = 179 \<or> n = 185)"

text \<open>\<open>s.isdigit()\<close>: at least one character, and all of them digits.\<close>

definition str_isdigit :: "string \<Rightarrow> bool" where
  "str_isdigit s = (s \<noteq> [] \<and> list_all py_isdigit s)"

definition lower_char :: "char \<Rightarrow> char" where
  "lower_char c = (let n = code_point c in
     if (65 \<le> n \<and> n \<le> 90) \<or> (192 \<le> n \<and> n \<le> 222 \<and> n \<noteq> 215)
     then char_of (n + 32) else c)"

definition py_lower :: "string \<Rightarrow> string" where
  "py_lower s = map lower_char s"

text \<open>\<open>s.replace(a, b)\<close> for one-character \<open>a\<close> and \<open>b\<close>.\<close>

definition py_replace :: "char \<Rightarrow> char \<Rightarrow> string \<Rightarrow> string" where
  "py_replace a b s = map (\<lambda>c. if c = a then b else c) s"

text \<open>\<open>s.split(sep)\<close> for a one-character separator: never the empty list.\<close>

fun py_split_on :: "char \<Rightarrow> string \<Rightarrow> string list" where
  "py_split_on sep [] = [[]]"
| "py_split_on sep (c # cs) =
     (if c = sep then [] # py_split_on sep cs
      else (case py_split_on sep cs of
              [] \<Rightarrow> [[c]]
            | t # ts \<Rightarrow> (c # t) # ts))"

text \<open>
  \<open>s.split()\<close>: the maximal runs of non-whitespace characters, in order. \<open>cur\<close> is the run
  being read.
\<close>

fun py_split_from :: "string \<Rightarrow> string \<Rightarrow> string list" where
  "py_split_from cur [] = (if cur = [] then [] else [cur])"
| "py_split_from cur (c # cs) =
     (if py_isspace c then (if cur = [] then [] else [cur]) @ py_split_from [] cs
      else py_split_from (cur @ [c]) cs)"

definition py_split :: "string \<Rightarrow> string list" where
  "py_split s = py_split_from [] s"

text \<open>\<open>s.strip()\<close>: whitespace removed at both ends.\<close>

definition py_strip :: "string \<Rightarrow> string" where
  "py_strip s = rev (dropWhile py_isspace (rev (dropWhile py_isspace s)))"

text \<open>
  \<open>int(s)\<close>, for the strings this program gives it: \<open>parse_actual\<close> calls it on strings of
  \<open>isdigit\<close> characters only (a filtered string, or a token that passed \<open>s.isdigit()\<close>),
  and \<open>load_and_process_history\<close> on one character. On such a string \<open>int\<close> returns
  the decimal value when the string is not empty and every character is a decimal digit,
  and raises ValueError otherwise. CPython also raises ValueError when the string has more
  than 640 digits and more than \<open>sys.get_int_max_str_digits()\<close> of them; that setting is
  the parameter \<open>maxd\<close> (4300 by default, 0 for no limit).
\<close>

definition digit_value :: "char \<Rightarrow> nat" where
  "digit_value c = code_point c - 48"

definition py_int :: "nat \<Rightarrow> string \<Rightarrow> py_error + nat" where
  "py_int maxd s =
     (if s = [] \<or> \<not> list_all py_isdecimal s then Inl ValueError
      else if 640 < length s \<and> 0 < maxd \<and> maxd < length s then Inl ValueError
      else Inr (foldl (\<lambda>a c. 10 * a + digit_value c) 0 s))"

section \<open>\<open>parse_actual\<close>\<close>

text \<open>
  \<^verbatim>\<open>[int(s.strip()) for s in tokens if s.isdigit()]\<close>: the first conversion that raises
  ends the comprehension.
\<close>

fun int_parts :: "nat \<Rightarrow> string list \<Rightarrow> py_error + nat list" where
  "int_parts maxd [] = Inr []"
| "int_parts maxd (s # ss) =
     (if str_isdigit s
      then (case py_int maxd (py_strip s) of
              Inl e \<Rightarrow> Inl e
            | Inr v \<Rightarrow> (case int_parts maxd ss of
                         Inl e \<Rightarrow> Inl e
                       | Inr vs \<Rightarrow> Inr (v # vs)))
      else int_parts maxd ss)"

text \<open>The body of the \<open>try\<close> block of \<open>parse_actual\<close>.\<close>

definition parse_actual_try :: "nat \<Rightarrow> string \<Rightarrow> py_error + nat" where
  "parse_actual_try maxd value_str =
     (if py_in ''sec'' (py_lower value_str)
      then (case py_get (py_split_on CHR ''-'' value_str) 0 of
              Inl e \<Rightarrow> Inl e
            | Inr before \<Rightarrow> py_int maxd (filter py_isdigit before))
      else (case int_parts maxd (py_split (py_replace CHR '','' CHR '' '' value_str)) of
              Inl e \<Rightarrow> Inl e
            | Inr parts \<Rightarrow> Inr (sum_list parts)))"

text \<open>\<open>except Exception: return None\<close>.\<close>

definition parse_actual :: "nat \<Rightarrow> string \<Rightarrow> nat option" where
  "parse_actual maxd value_str =
     (case parse_actual_try maxd value_str of Inl e \<Rightarrow> None | Inr v \<Rightarrow> Some v)"

subsection \<open>The parsing rules as the specification words them\<close>

text \<open>
  The specification's rules for the numeric metric, for comparison with \<open>parse_actual\<close>:
  split on whitespace and commas, keep the tokens that are purely digits, sum them as
  integers; for a string that contains "sec", the digit characters of the part before the
  first "-", read as an integer; no metric when a conversion fails.
\<close>

definition spec_separator :: "char \<Rightarrow> bool" where
  "spec_separator c = (py_isspace c \<or> c = CHR '','')"

fun spec_tokens_from :: "string \<Rightarrow> string \<Rightarrow> string list" where
  "spec_tokens_from cur [] = (if cur = [] then [] else [cur])"
| "spec_tokens_from cur (c # cs) =
     (if spec_separator c then (if cur = [] then [] else [cur]) @ spec_tokens_from [] cs
      else spec_tokens_from (cur @ [c]) cs)"

definition spec_digit_tokens :: "string \<Rightarrow> string list" where
  "spec_digit_tokens s = filter str_isdigit (spec_tokens_from [] s)"

definition spec_converts :: "nat \<Rightarrow> string \<Rightarrow> bool" where
  "spec_converts maxd t = (case py_int maxd t of Inl e \<Rightarrow> False | Inr v \<Rightarrow> True)"

definition spec_value :: "nat \<Rightarrow> string \<Rightarrow> nat" where
  "spec_value maxd t = (case py_int maxd t of Inl e \<Rightarrow> 0 | Inr v \<Rightarrow> v)"

definition parse_actual_spec :: "nat \<Rightarrow> string \<Rightarrow> nat option" where
  "parse_actual_spec maxd s =
     (if py_in ''sec'' (py_lower s)
      then (let digits = filter py_isdigit (takeWhile (\<lambda>c. c \<noteq> CHR ''-'') s)
            in if spec_converts maxd digits then Some (spec_value maxd digits) else None)
      else (let toks = spec_digit_tokens s
            in if list_all (spec_converts maxd) toks
               then Some (sum_list (map (spec_value maxd) toks)) else None))"

section \<open>The sheet layout shared by the three scans\<close>

text \<open>
  Row 0 of a sheet is a title row, row 1 the header row (\<open>headers = data[1]\<close>), the rows
  from 2 on are \<open>exercise_rows = data[2:]\<close>. A column is a workout column when its header
  contains both "Workout" and "Actual".
\<close>

definition is_workout_actual :: "string \<Rightarrow> bool" where
  "is_workout_actual header = (py_in ''Workout'' header \<and> py_in ''Actual'' header)"

text \<open>
  \<^verbatim>\<open>{i: header for i, header in enumerate(headers) if ...}\<close>, in insertion order, and
  \<^verbatim>\<open>[i for i, header in enumerate(headers) if ...]\<close>.
\<close>

definition workout_cols :: "row \<Rightarrow> (nat \<times> string) list" where
  "workout_cols headers = filter (\<lambda>(i, header). is_workout_actual header) (enumerate 0 headers)"

definition workout_col_indices :: "row \<Rightarrow> nat list" where
  "workout_col_indices headers = map fst (workout_cols headers)"

text \<open>The test \<open>row and row[0]\<close>: the row has a first cell and it is not empty.\<close>

definition has_name :: "row \<Rightarrow> bool" where
  "has_name r = (case r of [] \<Rightarrow> False | n # cells \<Rightarrow> n \<noteq> [])"

section \<open>\<open>load_and_process_history\<close>\<close>

record history_record =
  Sheet :: string
  Day :: string
  Exercise :: string
  Actual_Raw :: string
  Workout_Order :: nat

text \<open>
  The loop over \<open>workout_cols.items()\<close> for one row: \<open>row[col_idx]\<close> raises IndexError on
  a short row, \<open>day_title[8]\<close> IndexError on a short header, \<open>int\<close> ValueError when the
  character is not a decimal digit. The last argument is \<open>history_records\<close>.
\<close>

fun history_cols ::
  "nat \<Rightarrow> string \<Rightarrow> string \<Rightarrow> row \<Rightarrow> nat \<Rightarrow> (nat \<times> string) list \<Rightarrow> history_record list
     \<Rightarrow> py_error + history_record list" where
  "history_cols maxd sheet_title exercise_name r workout_counter [] recs = Inr recs"
| "history_cols maxd sheet_title exercise_name r workout_counter ((col_idx, day_title) # cols) recs =
     (case py_get r col_idx of
        Inl e \<Rightarrow> Inl e
      | Inr actual_result \<Rightarrow>
          if actual_result \<noteq> []
          then (case py_get day_title 8 of
                  Inl e \<Rightarrow> Inl e
                | Inr ch \<Rightarrow>
                    (case py_int maxd [ch] of
                       Inl e \<Rightarrow> Inl e
                     | Inr d \<Rightarrow>
                         history_cols maxd sheet_title exercise_name r workout_counter cols
                           (recs @ [\<lparr>Sheet = sheet_title, Day = day_title,
                                     Exercise = exercise_name, Actual_Raw = actual_result,
                                     Workout_Order = workout_counter + d\<rparr>])))
          else history_cols maxd sheet_title exercise_name r workout_counter cols recs)"

text \<open>
  The loop over \<open>exercise_rows\<close>: \<open>row[0]\<close> is read with no guard (IndexError on an empty
  row); a row with an empty name is passed over (\<open>continue\<close>), and the scan goes on.
\<close>

fun history_rows ::
  "nat \<Rightarrow> string \<Rightarrow> nat \<Rightarrow> (nat \<times> string) list \<Rightarrow> row list \<Rightarrow> history_record list
     \<Rightarrow> py_error + history_record list" where
  "history_rows maxd sheet_title workout_counter cols [] recs = Inr recs"
| "history_rows maxd sheet_title workout_counter cols (r # rows) recs =
     (case py_get r 0 of
        Inl e \<Rightarrow> Inl e
      | Inr exercise_name \<Rightarrow>
          if exercise_name = []
          then history_rows maxd sheet_title workout_counter cols rows recs
          else (case history_cols maxd sheet_title exercise_name r workout_counter cols recs of
                  Inl e \<Rightarrow> Inl e
                | Inr recs' \<Rightarrow> history_rows maxd sheet_title workout_counter cols rows recs'))"

text \<open>The loop over \<open>_all_sheets_data.items()\<close>, with \<open>workout_counter\<close> and \<open>history_records\<close>.\<close>

fun history_sheets ::
  "nat \<Rightarrow> sheets_data \<Rightarrow> nat \<Rightarrow> history_record list \<Rightarrow> py_error + history_record list" where
  "history_sheets maxd [] workout_counter recs = Inr recs"
| "history_sheets maxd ((sheet_title, data) # sheets) workout_counter recs =
     (if length data < 3 then history_sheets maxd sheets workout_counter recs
      else if workout_cols (data ! 1) = [] then history_sheets maxd sheets workout_counter recs
      else (case history_rows maxd sheet_title workout_counter (workout_cols (data ! 1))
                   (drop 2 data) recs of
              Inl e \<Rightarrow> Inl e
            | Inr recs' \<Rightarrow>
                history_sheets maxd sheets (workout_counter + length (workout_cols (data ! 1)))
                  recs'))"

text \<open>
  The data frame that is returned: one row per record, with the column
  "Metric (Total Volume/Time)" beside it, sorted by \<open>Workout_Order\<close>; the empty frame when
  there is no record. The column \<open>Workout_Label\<close> (two string replacements) is left out.
  \<open>sort_values\<close> is modelled by the stable \<open>sort_key\<close>; pandas promises no order among rows
  of equal \<open>Workout_Order\<close>, and nothing below depends on that order.
\<close>

type_synonym history_row = "history_record \<times> nat option"

definition load_and_process_history :: "nat \<Rightarrow> sheets_data \<Rightarrow> py_error + history_row list" where
  "load_and_process_history maxd all_sheets_data =
     (case history_sheets maxd all_sheets_data 0 [] of
        Inl e \<Rightarrow> Inl e
      | Inr history_records \<Rightarrow>
          if history_records = [] then Inr []
          else Inr (sort_key (\<lambda>df_row. Workout_Order (fst df_row))
                      (map (\<lambda>rec. (rec, parse_actual maxd (Actual_Raw rec))) history_records)))"

section \<open>\<open>calculate_overall_completion\<close>\<close>

text \<open>The counting loop with its \<open>break\<close> at the first row without a name.\<close>

fun count_exercises :: "row list \<Rightarrow> nat \<Rightarrow> nat" where
  "count_exercises [] num = num"
| "count_exercises (r # rows) num = (if has_name r then count_exercises rows (num + 1) else num)"

fun filled_cols :: "row \<Rightarrow> nat list \<Rightarrow> nat \<Rightarrow> py_error + nat" where
  "filled_cols r [] filled_slots = Inr filled_slots"
| "filled_cols r (col_idx # cols) filled_slots =
     (case py_get r col_idx of
        Inl e \<Rightarrow> Inl e
      | Inr cell \<Rightarrow> filled_cols r cols (if cell \<noteq> [] then filled_slots + 1 else filled_slots))"

text \<open>\<open>for i in range(num_exercises_in_sheet)\<close>: the second argument is the range.\<close>

fun filled_rows :: "row list \<Rightarrow> nat list \<Rightarrow> nat list \<Rightarrow> nat \<Rightarrow> py_error + nat" where
  "filled_rows exercise_rows [] cols filled_slots = Inr filled_slots"
| "filled_rows exercise_rows (i # is) cols filled_slots =
     (case py_get exercise_rows i of
        Inl e \<Rightarrow> Inl e
      | Inr r \<Rightarrow>
          (case filled_cols r cols filled_slots of
             Inl e \<Rightarrow> Inl e
           | Inr filled_slots' \<Rightarrow> filled_rows exercise_rows is cols filled_slots'))"

fun completion_sheets :: "sheets_data \<Rightarrow> nat \<Rightarrow> nat \<Rightarrow> py_error + nat \<times> nat" where
  "completion_sheets [] total_slots filled_slots = Inr (total_slots, filled_slots)"
| "completion_sheets ((sheet_title, data) # sheets) total_slots filled_slots =
     (if length data < 3 then completion_sheets sheets total_slots filled_slots
      else if workout_col_indices (data ! 1) = []
      then completion_sheets sheets total_slots filled_slots
      else if count_exercises (drop 2 data) 0 = 0
      then completion_sheets sheets total_slots filled_slots
      else (case filled_rows (drop 2 data) [0 ..< count_exercises (drop 2 data) 0]
                   (workout_col_indices (data ! 1)) filled_slots of
              Inl e \<Rightarrow> Inl e
            | Inr filled_slots' \<Rightarrow>
                completion_sheets sheets
                  (total_slots
                     + count_exercises (drop 2 data) 0 * length (workout_col_indices (data ! 1)))
                  filled_slots'))"

text \<open>
  The percentage is the float \<open>(filled_slots / total_slots) * 100\<close>; the model keeps the
  exact rational value, without the rounding of the two float operations.
\<close>

definition calculate_overall_completion :: "sheets_data \<Rightarrow> py_error + nat \<times> nat \<times> rat" where
  "calculate_overall_completion all_sheets_data =
     (case completion_sheets all_sheets_data 0 0 of
        Inl e \<Rightarrow> Inl e
      | Inr (total_slots, filled_slots) \<Rightarrow>
          if total_slots = 0 then Inr (0, 0, 0)
          else Inr (total_slots, filled_slots,
                    (of_nat filled_slots / of_nat total_slots) * 100))"

section \<open>\<open>find_next_workout_and_exercises\<close>\<close>

record exercise =
  name :: string
  sets_goal :: string
  reps_goal :: string
  rest :: string
  gspread_row :: nat
  gspread_col :: nat

text \<open>The loop that finds \<open>last_exercise_row_index\<close>, from \<open>-1\<close>, with its \<open>break\<close>.\<close>

fun last_exercise_loop :: "row list \<Rightarrow> nat \<Rightarrow> int \<Rightarrow> int" where
  "last_exercise_loop [] i last_index = last_index"
| "last_exercise_loop (r # rows) i last_index =
     (if has_name r then last_exercise_loop rows (i + 1) (int i) else last_index)"

text \<open>
  The inner loop that builds \<open>exercises_to_do\<close> for \<open>col_index\<close>: it stops at the first row
  without a name; \<open>row[col_index]\<close>, \<open>row[1]\<close>, \<open>row[2]\<close> and \<open>row[3]\<close> raise IndexError on a
  short row.
\<close>

fun todo_loop :: "nat \<Rightarrow> row list \<Rightarrow> nat \<Rightarrow> exercise list \<Rightarrow> py_error + exercise list" where
  "todo_loop col_index [] i exercises_to_do = Inr exercises_to_do"
| "todo_loop col_index (r # rows) i exercises_to_do =
     (if \<not> has_name r then Inr exercises_to_do
      else (case py_get r col_index of
              Inl e \<Rightarrow> Inl e
            | Inr cell \<Rightarrow>
                if cell = []
                then (case py_get r 0 of
                        Inl e \<Rightarrow> Inl e
                      | Inr c0 \<Rightarrow>
                     (case py_get r 1 of
                        Inl e \<Rightarrow> Inl e
                      | Inr c1 \<Rightarrow>
                     (case py_get r 2 of
                        Inl e \<Rightarrow> Inl e
                      | Inr c2 \<Rightarrow>
                     (case py_get r 3 of
                        Inl e \<Rightarrow> Inl e
                      | Inr c3 \<Rightarrow>
                          todo_loop col_index rows (i + 1)
                            (exercises_to_do @
                               [\<lparr>name = c0, sets_goal = c1, reps_goal = c2, rest = c3,
                                 gspread_row = i + 3, gspread_col = col_index + 1\<rparr>])))))
                else todo_loop col_index rows (i + 1) exercises_to_do))"

text \<open>
  The loop over \<open>workout_col_indices\<close> of one sheet. \<open>None\<close> is the fall through to the next
  sheet; \<open>Some\<close> is the \<open>return\<close> of line 261, taken only when \<open>exercises_to_do\<close> is not
  empty.
\<close>

fun find_in_cols ::
  "string \<Rightarrow> row \<Rightarrow> row list \<Rightarrow> nat \<Rightarrow> nat list
     \<Rightarrow> py_error + (string \<times> exercise list \<times> string) option" where
  "find_in_cols sheet_title headers exercise_rows last_index [] = Inr None"
| "find_in_cols sheet_title headers exercise_rows last_index (col_index # cols) =
     (case py_get exercise_rows last_index of
        Inl e \<Rightarrow> Inl e
      | Inr last_row \<Rightarrow>
     (case py_get last_row col_index of
        Inl e \<Rightarrow> Inl e
      | Inr cell \<Rightarrow>
          if cell = []
          then (case todo_loop col_index exercise_rows 0 [] of
                  Inl e \<Rightarrow> Inl e
                | Inr exercises_to_do \<Rightarrow>
                    if exercises_to_do \<noteq> []
                    then (case py_get headers col_index of
                            Inl e \<Rightarrow> Inl e
                          | Inr day \<Rightarrow> Inr (Some (sheet_title, exercises_to_do, day)))
                    else find_in_cols sheet_title headers exercise_rows last_index cols)
          else find_in_cols sheet_title headers exercise_rows last_index cols))"

fun find_in_sheets ::
  "sheets_data \<Rightarrow> py_error + string option \<times> exercise list \<times> string option" where
  "find_in_sheets [] = Inr (None, [], None)"
| "find_in_sheets ((sheet_title, data) # sheets) =
     (if length data < 3 then find_in_sheets sheets
      else if workout_col_indices (data ! 1) = [] then find_in_sheets sheets
      else if last_exercise_loop (drop 2 data) 0 (- 1) = - 1 then find_in_sheets sheets
      else (case find_in_cols sheet_title (data ! 1) (drop 2 data)
                   (nat (last_exercise_loop (drop 2 data) 0 (- 1)))
                   (workout_col_indices (data ! 1)) of
              Inl e \<Rightarrow> Inl e
            | Inr None \<Rightarrow> find_in_sheets sheets
            | Inr (Some (t, exercises_to_do, day)) \<Rightarrow> Inr (Some t, exercises_to_do, Some day)))"

definition find_next_workout_and_exercises ::
  "sheets_data \<Rightarrow> py_error + string option \<times> exercise list \<times> string option" where
  "find_next_workout_and_exercises all_sheets_data = find_in_sheets all_sheets_data"

subsection \<open>The Schedule Resolver as the specification words it\<close>

text \<open>
  The exercise block of a sheet: the leading rows with a name, up to the first row with an
  empty name cell.
\<close>

definition exercise_block :: "row list \<Rightarrow> row list" where
  "exercise_block exercise_rows = takeWhile has_name exercise_rows"

text \<open>
  Step 3 of the specification's algorithm: the first workout column, in header order, for
  which the last row of the block has an empty cell.
\<close>

fun spec_first_open :: "row \<Rightarrow> nat list \<Rightarrow> py_error + nat option" where
  "spec_first_open last_row [] = Inr None"
| "spec_first_open last_row (c # cols) =
     (case py_get last_row c of
        Inl e \<Rightarrow> Inl e
      | Inr cell \<Rightarrow> if cell = [] then Inr (Some c) else spec_first_open last_row cols)"

text \<open>
  Step 4: one Exercise-To-Do for every row of the block whose cell in the chosen column is
  empty, with target row = row offset + 3 and target column = column offset + 1.
\<close>

definition spec_entry :: "nat \<Rightarrow> nat \<Rightarrow> row \<Rightarrow> py_error + exercise" where
  "spec_entry c i r =
     (if length r < 4 then Inl IndexError
      else Inr \<lparr>name = r ! 0, sets_goal = r ! 1, reps_goal = r ! 2, rest = r ! 3,
                 gspread_row = i + 3, gspread_col = c + 1\<rparr>)"

fun spec_todo :: "nat \<Rightarrow> nat \<Rightarrow> row list \<Rightarrow> py_error + exercise list" where
  "spec_todo c i [] = Inr []"
| "spec_todo c i (r # block) =
     (case py_get r c of
        Inl e \<Rightarrow> Inl e
      | Inr cell \<Rightarrow>
          if cell = []
          then (case spec_entry c i r of
                  Inl e \<Rightarrow> Inl e
                | Inr x \<Rightarrow> (case spec_todo c (i + 1) block of
                              Inl e \<Rightarrow> Inl e
                            | Inr xs \<Rightarrow> Inr (x # xs)))
          else spec_todo c (i + 1) block)"

text \<open>
  Steps 1, 2, 5 and 6: sheets in order; a sheet with fewer than three rows, without a
  workout column or with an empty block is skipped, and so is a sheet with no open column;
  for the chosen column the sheet name, the to-do list and the column's header are
  returned, whether the list is empty or not.
\<close>

fun resolve_spec ::
  "sheets_data \<Rightarrow> py_error + string option \<times> exercise list \<times> string option" where
  "resolve_spec [] = Inr (None, [], None)"
| "resolve_spec ((sheet_title, data) # sheets) =
     (if length data < 3 \<or> workout_col_indices (data ! 1) = []
         \<or> exercise_block (drop 2 data) = []
      then resolve_spec sheets
      else (case spec_first_open (last (exercise_block (drop 2 data)))
                   (workout_col_indices (data ! 1)) of
              Inl e \<Rightarrow> Inl e
            | Inr None \<Rightarrow> resolve_spec sheets
            | Inr (Some c) \<Rightarrow>
                (case spec_todo c 0 (exercise_block (drop 2 data)) of
                   Inl e \<Rightarrow> Inl e
                 | Inr todo \<Rightarrow> Inr (Some sheet_title, todo, Some (data ! 1 ! c)))))"

subsection \<open>The data model of the specification\<close>

text \<open>
  An exercise row has a name, a sets goal, a reps goal, a rest cell and one result cell per
  workout column. \<open>sheets_ok\<close> says that every row below the header row has these cells; a
  rectangular grid with at least four columns, as \<open>get_all_values\<close> returns it for the
  application's sheets, is of this kind.
\<close>

definition exercise_row_ok :: "row \<Rightarrow> row \<Rightarrow> bool" where
  "exercise_row_ok headers r =
     (4 \<le> length r \<and> list_all (\<lambda>c. c < length r) (workout_col_indices headers))"

definition snapshot_ok :: "snapshot \<Rightarrow> bool" where
  "snapshot_ok data = list_all (exercise_row_ok (data ! 1)) (drop 2 data)"

definition sheets_ok :: "sheets_data \<Rightarrow> bool" where
  "sheets_ok all_sheets_data = list_all (\<lambda>sd. snapshot_ok (snd sd)) all_sheets_data"

text \<open>
  \<open>row_fills r r'\<close>: \<open>r'\<close> is \<open>r\<close> with some empty cells filled, the name cell apart;
  \<open>sheet_fills\<close> is the same for a sheet, whose title row and header row stay as they are.
\<close>

definition row_fills :: "row \<Rightarrow> row \<Rightarrow> bool" where
  "row_fills r r' =
     (length r' = length r \<and> has_name r' = has_name r
      \<and> (\<forall>j<length r. r ! j \<noteq> [] \<longrightarrow> r' ! j \<noteq> []))"

definition sheet_fills :: "string \<times> snapshot \<Rightarrow> string \<times> snapshot \<Rightarrow> bool" where
  "sheet_fills sd sd' =
     (length (snd sd') = length (snd sd) \<and> snd sd' ! 1 = snd sd ! 1
      \<and> list_all2 row_fills (drop 2 (snd sd)) (drop 2 (snd sd')))"

text \<open>
  The ordinal of a history record is the running counter plus the digit at offset 8 of the
  column's header. \<open>workout_count\<close> is the counter after a list of sheets: the number of
  workout columns of the sheets with at least three rows.
\<close>

definition header_digit_ok :: "string \<Rightarrow> bool" where
  "header_digit_ok header = (8 < length header \<and> py_isdecimal (header ! 8))"

definition header_digit :: "string \<Rightarrow> nat" where
  "header_digit header = digit_value (header ! 8)"

definition workout_digits :: "row \<Rightarrow> nat list" where
  "workout_digits headers = map (\<lambda>ch. header_digit (snd ch)) (workout_cols headers)"

fun workout_count :: "sheets_data \<Rightarrow> nat" where
  "workout_count [] = 0"
| "workout_count ((sheet_title, data) # sheets) =
     (if length data < 3 then 0 else length (workout_cols (data ! 1))) + workout_count sheets"

text \<open>
  \<open>headers_ok\<close>: every workout header has a decimal digit at offset 8.
  \<open>headers_numbered\<close>: moreover the digits strictly increase in header order and none
  exceeds the number of workout columns of the sheet (as with "Workout 1", "Workout 2", ...).
\<close>

definition headers_ok :: "sheets_data \<Rightarrow> bool" where
  "headers_ok all_sheets_data =
     list_all (\<lambda>sd. length (snd sd) < 3
                  \<or> list_all (\<lambda>ch. header_digit_ok (snd ch)) (workout_cols (snd sd ! 1)))
       all_sheets_data"

definition headers_numbered :: "sheets_data \<Rightarrow> bool" where
  "headers_numbered all_sheets_data =
     list_all (\<lambda>sd. length (snd sd) < 3
                  \<or> (sorted_wrt (<) (workout_digits (snd sd ! 1))
                     \<and> list_all (\<lambda>d. d \<le> length (workout_cols (snd sd ! 1)))
                          (workout_digits (snd sd ! 1))))
       all_sheets_data"

text \<open>
  \<open>from_column sheet_title k cols rec\<close>: the record \<open>rec\<close> belongs to the sheet and to one of
  its workout columns \<open>cols\<close>, whose header has a digit at offset 8, and its ordinal is the
  counter \<open>k\<close> plus that digit.
\<close>

definition from_column :: "string \<Rightarrow> nat \<Rightarrow> (nat \<times> string) list \<Rightarrow> history_record \<Rightarrow> bool" where
  "from_column sheet_title k cols rec =
     (Sheet rec = sheet_title
      \<and> (\<exists>ch\<in>set cols. Day rec = snd ch \<and> header_digit_ok (snd ch)
            \<and> Workout_Order rec = k + header_digit (snd ch)))"

section \<open>Example sheets\<close>

text \<open>
  A plan in the layout the application reads: a sheet without data rows, then a week with
  two workout columns and three exercises, the first workout done and the second begun.
\<close>

definition example_week :: snapshot where
  "example_week =
     [[''Week 1'', '''', '''', '''', '''', ''''],
      [''Exercise'', ''Sets'', ''Reps'', ''Rest'', ''Workout 1 (Actual)'', ''Workout 2 (Actual)''],
      [''Push-ups'', ''3'', ''10'', ''60 sec'', ''10, 9, 8'', ''10, 10, 9''],
      [''Plank'', ''3'', ''45-60 sec'', ''30 sec'', ''45 sec'', ''''],
      [''Squats'', ''3'', ''12'', ''60 sec'', ''12, 12, 12'', '''']]"

definition example_plan :: sheets_data where
  "example_plan = [(''Month 1 - Notes'', [[''Notes'']]), (''Month 1 - Week 1'', example_week)]"

text \<open>A week whose third data row comes after a row with an empty name cell.\<close>

definition example_gap :: sheets_data where
  "example_gap =
     [(''Month 1 - Week 2'',
       [[''Week 2'', '''', '''', '''', ''''],
        [''Exercise'', ''Sets'', ''Reps'', ''Rest'', ''Workout 1 (Actual)''],
        [''Push-ups'', ''3'', ''10'', ''60 sec'', ''10, 9, 8''],
        ['''', '''', '''', '''', ''''],
        [''Squats'', ''3'', ''12'', ''60 sec'', ''12, 12, 12'']])]"

text \<open>A sheet whose workouts are numbered 9 and 10.\<close>

definition example_ten :: sheets_data where
  "example_ten =
     [(''Month 1 - Week 3'',
       [[''Week 3'', '''', '''', '''', '''', ''''],
        [''Exercise'', ''Sets'', ''Reps'', ''Rest'', ''Workout 9 (Actual)'', ''Workout 10 (Actual)''],
        [''Push-ups'', ''3'', ''10'', ''60 sec'', ''10, 9, 8'', ''9, 9, 9'']])]"

text \<open>The example plan followed by a sheet whose workout is lettered, not numbered.\<close>

definition example_lettered :: sheets_data where
  "example_lettered =
     example_plan @
     [(''Month 1 - Week 4'',
       [[''Week 4'', '''', '''', '''', ''''],
        [''Exercise'', ''Sets'', ''Reps'', ''Rest'', ''Workout A (Actual)''],
        [''Push-ups'', ''3'', ''10'', ''60 sec'', ''10, 9, 8'']])]"

section \<open>Verification\<close>

subsection \<open>Built-ins\<close>

lemma py_split_on_nonempty: "py_split_on sep s \<noteq> []"
  by (induction s) (auto split: list.splits)

lemma py_split_on_hd: "hd (py_split_on sep s) = takeWhile (\<lambda>c. c \<noteq> sep) s"
  by (induction s) (auto split: list.splits simp: py_split_on_nonempty)

lemma py_get_split_on:
  "py_get (py_split_on sep s) 0 = Inr (takeWhile (\<lambda>c. c \<noteq> sep) s)"
  using py_split_on_nonempty[of sep s] py_split_on_hd[of sep s]
  by (cases "py_split_on sep s") (auto simp: py_get_def)

lemma space_is_space: "py_isspace CHR '' ''"
  by (simp add: py_isspace_def code_point_def)

lemma split_replace_tokens:
  "py_split_from cur (py_replace CHR '','' CHR '' '' s) = spec_tokens_from cur s"
  by (induction s arbitrary: cur)
     (auto simp: py_replace_def spec_separator_def space_is_space)

lemma isdigit_not_space: "py_isdigit c \<Longrightarrow> \<not> py_isspace c"
  by (auto simp: py_isdigit_def py_isspace_def Let_def)

lemma strip_no_space:
  assumes "list_all (\<lambda>c. \<not> py_isspace c) s"
  shows "py_strip s = s"
proof -
  have front: "dropWhile py_isspace s = s"
    using assms by (cases s) auto
  have "list_all (\<lambda>c. \<not> py_isspace c) (rev s)"
    using assms by (simp add: list_all_iff)
  then have rear: "dropWhile py_isspace (rev s) = rev s"
    by (cases "rev s") auto
  show ?thesis by (simp add: py_strip_def front rear)
qed

lemma strip_digits: "str_isdigit s \<Longrightarrow> py_strip s = s"
  by (rule strip_no_space) (auto simp: str_isdigit_def list_all_iff isdigit_not_space)

lemma py_int_cases:
  "py_int maxd t = (if spec_converts maxd t then Inr (spec_value maxd t) else Inl ValueError)"
  by (auto simp: py_int_def spec_converts_def spec_value_def)

subsection \<open>\<open>parse_actual\<close>\<close>

lemma int_parts_spec:
  "int_parts maxd ts =
     (if list_all (spec_converts maxd) (filter str_isdigit ts)
      then Inr (map (spec_value maxd) (filter str_isdigit ts)) else Inl ValueError)"
  by (induction ts) (auto simp: strip_digits py_int_cases)

lemma parse_actual_refines: "parse_actual maxd s = parse_actual_spec maxd s"
  by (simp add: parse_actual_def parse_actual_try_def parse_actual_spec_def py_get_split_on
      py_split_def split_replace_tokens int_parts_spec spec_digit_tokens_def py_int_cases Let_def)

lemmas parse_eval =
  parse_actual_def parse_actual_try_def py_lower_def lower_char_def code_point_def
  py_split_def py_replace_def py_isspace_def str_isdigit_def py_isdigit_def py_strip_def
  py_int_def py_isdecimal_def digit_value_def py_get_def char_of_def

text \<open>
  C1, as the code has it. \<open>parse_actual\<close> computes what the specification's rules say, with
  one difference: a string without "sec" that has no purely-digit token yields 0, the sum of
  no numbers, and not an absent metric. A string that contains "sec" (in any case) yields the
  integer formed by the digit characters before the first "-"; any other string yields the
  sum of its purely-digit tokens, split on whitespace and commas. The metric is absent only
  when a conversion raises: no digit before the first "-" of a "sec" string, a digit
  character that is not a decimal digit, or more digits than the interpreter's limit.
  So \<open>parse_actual("10, 9, 8") = 27\<close>, \<open>parse_actual("45-60 sec") = 45\<close> and
  \<open>parse_actual("Done") = 0\<close>.
\<close>

theorem parse_actual_rules:
  "parse_actual maxd s = parse_actual_spec maxd s
   \<and> (\<not> py_in ''sec'' (py_lower s) \<and> spec_digit_tokens s = [] \<longrightarrow> parse_actual maxd s = Some 0)
   \<and> parse_actual maxd ''10, 9, 8'' = Some 27
   \<and> parse_actual maxd ''45-60 sec'' = Some 45
   \<and> parse_actual maxd ''Done'' = Some 0"
proof -
  have "parse_actual maxd s = parse_actual_spec maxd s"
    by (rule parse_actual_refines)
  moreover have "parse_actual_spec maxd s = Some 0"
    if "\<not> py_in ''sec'' (py_lower s)" "spec_digit_tokens s = []"
    using that by (simp add: parse_actual_spec_def)
  moreover have "parse_actual maxd ''10, 9, 8'' = Some 27"
    by (simp add: parse_eval)
  moreover have "parse_actual maxd ''45-60 sec'' = Some 45"
    by (simp add: parse_eval)
  moreover have "parse_actual maxd ''Done'' = Some 0"
    by (simp add: parse_eval)
  ultimately show ?thesis by simp
qed

theorem parse_actual_rules_witness:
  "parse_actual_spec 4300 ''12, 10 reps'' = Some 22 \<and> parse_actual_spec 4300 ''plank'' = Some 0"
proof -
  have "parse_actual 4300 ''12, 10 reps'' = Some 22" "parse_actual 4300 ''plank'' = Some 0"
    by (simp_all add: parse_eval)
  then show ?thesis
    using parse_actual_rules[of 4300 "''12, 10 reps''"] parse_actual_rules[of 4300 "''plank''"]
    by simp
qed

text \<open>
  C1 as stated fails: \<open>parse_actual("Done")\<close> is 0, not absent, with the default digit limit
  and with none.
\<close>

theorem parse_actual_done_counterexample:
  "parse_actual 4300 ''Done'' = Some 0 \<and> parse_actual 0 ''Done'' = Some 0"
  by (simp add: parse_eval)

subsection \<open>The exercise block\<close>

lemma last_exercise_loop_block:
  "last_exercise_loop rows i l =
     (if exercise_block rows = [] then l else int (i + length (exercise_block rows)) - 1)"
  by (induction rows arbitrary: i l) (auto simp: exercise_block_def)

lemma count_exercises_block: "count_exercises rows n = n + length (exercise_block rows)"
  by (induction rows arbitrary: n) (auto simp: exercise_block_def)

lemma block_last_row:
  assumes "exercise_block rows \<noteq> []"
  shows "py_get rows (length (exercise_block rows) - 1) = Inr (last (exercise_block rows))"
proof -
  let ?b = "exercise_block rows"
  have len: "length ?b \<le> length rows"
    by (simp add: exercise_block_def length_takeWhile_le)
  have pos: "0 < length ?b" using assms by simp
  have "rows ! (length ?b - 1) = ?b ! (length ?b - 1)"
    unfolding exercise_block_def
    by (rule takeWhile_nth[symmetric]) (use pos in \<open>simp add: exercise_block_def\<close>)
  also have "\<dots> = last ?b" using assms by (simp add: last_conv_nth)
  finally have "rows ! (length ?b - 1) = last ?b" .
  moreover have "length ?b - 1 < length rows" using len pos by linarith
  ultimately show ?thesis unfolding py_get_def by simp
qed

lemma workout_col_indices_bound: "c \<in> set (workout_col_indices headers) \<Longrightarrow> c < length headers"
  by (auto simp: workout_col_indices_def workout_cols_def in_set_enumerate_eq)

lemma workout_col_indices_iff:
  "c \<in> set (workout_col_indices headers) \<longleftrightarrow> c < length headers \<and> is_workout_actual (headers ! c)"
  by (force simp: workout_col_indices_def workout_cols_def in_set_enumerate_eq)

subsection \<open>\<open>find_next_workout_and_exercises\<close>\<close>

lemma todo_loop_block:
  "todo_loop c rows i acc =
     (case spec_todo c i (exercise_block rows) of Inl e \<Rightarrow> Inl e | Inr xs \<Rightarrow> Inr (acc @ xs))"
proof (induction rows arbitrary: i acc)
  case Nil
  then show ?case by (simp add: exercise_block_def)
next
  case (Cons r rows)
  show ?case
  proof (cases "has_name r")
    case False
    then show ?thesis by (simp add: exercise_block_def)
  next
    case True
    then show ?thesis
      using Cons.IH
      by (auto simp: exercise_block_def spec_entry_def py_get_def split: sum.splits)
  qed
qed

lemma spec_todo_props:
  "spec_todo c i block = Inr xs \<Longrightarrow>
     (\<forall>e\<in>set xs. gspread_col e = c + 1 \<and> i + 3 \<le> gspread_row e
        \<and> gspread_row e < i + 3 + length block)
     \<and> sorted_wrt (<) (map gspread_row xs)"
proof (induction block arbitrary: i xs)
  case Nil
  then show ?case by simp
next
  case (Cons r block)
  show ?case
  proof (cases "r ! c = []")
    case False
    with Cons.prems have "spec_todo c (i + 1) block = Inr xs"
      by (auto simp: py_get_def split: if_splits)
    from Cons.IH[OF this] show ?thesis by fastforce
  next
    case True
    with Cons.prems obtain x ys where
      x: "spec_entry c i r = Inr x" and ys: "spec_todo c (i + 1) block = Inr ys"
      and xs: "xs = x # ys"
      by (auto simp: py_get_def split: if_splits sum.splits)
    from x have gx: "gspread_row x = i + 3" "gspread_col x = c + 1"
      by (auto simp: spec_entry_def split: if_splits)
    from Cons.IH[OF ys] gx xs show ?thesis by fastforce
  qed
qed

text \<open>
  The list built for a column whose cell in the last row of the block is empty has an entry
  for that row, so it is never empty: the test of line 260 cannot fail.
\<close>

lemma spec_todo_last:
  "block \<noteq> [] \<Longrightarrow> py_get (last block) c = Inr [] \<Longrightarrow> spec_todo c i block = Inr xs \<Longrightarrow>
     \<exists>e\<in>set xs. gspread_row e = i + length block + 2 \<and> name e = last block ! 0"
proof (induction block arbitrary: i xs)
  case Nil
  then show ?case by simp
next
  case (Cons r block)
  show ?case
  proof (cases "block = []")
    case True
    with Cons.prems show ?thesis
      by (auto simp: py_get_def spec_entry_def split: if_splits sum.splits)
  next
    case False
    with Cons.prems have lastc: "py_get (last block) c = Inr []" by simp
    have "\<exists>ys. spec_todo c (i + 1) block = Inr ys \<and> set ys \<subseteq> set xs"
      using Cons.prems(3) by (auto simp: py_get_def split: if_splits sum.splits)
    then obtain ys where ys: "spec_todo c (i + 1) block = Inr ys" and sub: "set ys \<subseteq> set xs"
      by blast
    from Cons.IH[OF False lastc ys] sub False show ?thesis by auto
  qed
qed

lemma spec_first_open_Some:
  "spec_first_open r cs = Inr (Some c) \<Longrightarrow> c \<in> set cs \<and> py_get r c = Inr []"
  by (induction cs) (auto split: sum.splits if_splits)

lemma find_in_cols_spec:
  assumes "exercise_block rows \<noteq> []" and "\<forall>c\<in>set cs. c < length headers"
  shows "find_in_cols t headers rows (length (exercise_block rows) - 1) cs =
     (case spec_first_open (last (exercise_block rows)) cs of
        Inl e \<Rightarrow> Inl e
      | Inr None \<Rightarrow> Inr None
      | Inr (Some c) \<Rightarrow>
          (case spec_todo c 0 (exercise_block rows) of
             Inl e \<Rightarrow> Inl e
           | Inr todo \<Rightarrow> Inr (Some (t, todo, headers ! c))))"
  using assms(2)
proof (induction cs)
  case Nil
  then show ?case by simp
next
  case (Cons c cs)
  note lr = block_last_row[OF assms(1)]
  show ?case
  proof (cases "py_get (last (exercise_block rows)) c")
    case (Inl e)
    then show ?thesis using lr by simp
  next
    case cell: (Inr cell)
    show ?thesis
    proof (cases "cell = []")
      case False
      with cell Cons lr show ?thesis by simp
    next
      case True
      show ?thesis
      proof (cases "spec_todo c 0 (exercise_block rows)")
        case (Inl e)
        with cell True lr show ?thesis by (simp add: todo_loop_block)
      next
        case (Inr todo)
        with spec_todo_last[OF assms(1) _ Inr] cell True
        have "todo \<noteq> []" by auto
        with Inr cell True Cons.prems lr
        show ?thesis by (simp add: todo_loop_block py_get_def)
      qed
    qed
  qed
qed

lemma find_in_sheets_spec: "find_in_sheets sheets = resolve_spec sheets"
proof (induction sheets)
  case Nil
  then show ?case by simp
next
  case (Cons sd sheets)
  obtain t data where sd: "sd = (t, data)" by (cases sd)
  show ?case
  proof (cases "length data < 3 \<or> workout_col_indices (data ! 1) = []
                  \<or> exercise_block (drop 2 data) = []")
    case True
    then show ?thesis using Cons.IH
      by (auto simp: sd last_exercise_loop_block)
  next
    case False
    then have blk: "exercise_block (drop 2 data) \<noteq> []" by simp
    have idx: "nat (last_exercise_loop (drop 2 data) 0 (- 1))
                 = length (exercise_block (drop 2 data)) - 1"
      using blk by (simp add: last_exercise_loop_block)
    have ne: "last_exercise_loop (drop 2 data) 0 (- 1) \<noteq> - 1"
      using blk by (simp add: last_exercise_loop_block)
    have bnd: "\<forall>c\<in>set (workout_col_indices (data ! 1)). c < length (data ! 1)"
      by (simp add: workout_col_indices_bound)
    note fc = find_in_cols_spec[OF blk bnd, of t]
    show ?thesis
    proof (cases "spec_first_open (last (exercise_block (drop 2 data)))
                    (workout_col_indices (data ! 1))")
      case (Inl e)
      with False ne fc show ?thesis by (simp add: sd idx)
    next
      case (Inr oc)
      show ?thesis
      proof (cases oc)
        case None
        with Inr False ne fc Cons.IH show ?thesis by (simp add: sd idx)
      next
        case (Some c)
        with Inr False ne fc show ?thesis
          by (cases "spec_todo c 0 (exercise_block (drop 2 data))") (simp_all add: sd idx)
      qed
    qed
  qed
qed

lemma resolve_spec_result:
  "resolve_spec sheets = Inr (ot, todo, od) \<Longrightarrow>
     (ot = None \<and> todo = [] \<and> od = None) \<or>
     (\<exists>t data c. ot = Some t \<and> od = Some (data ! 1 ! c) \<and> (t, data) \<in> set sheets
        \<and> 3 \<le> length data \<and> exercise_block (drop 2 data) \<noteq> []
        \<and> spec_first_open (last (exercise_block (drop 2 data))) (workout_col_indices (data ! 1))
            = Inr (Some c)
        \<and> spec_todo c 0 (exercise_block (drop 2 data)) = Inr todo)"
proof (induction sheets)
  case Nil
  then show ?case by simp
next
  case (Cons sd sheets)
  obtain t data where sd: "sd = (t, data)" by (cases sd)
  show ?case
  proof (cases "resolve_spec (sd # sheets) = resolve_spec sheets")
    case True
    with Cons show ?thesis by fastforce
  next
    case False
    then have q: "\<not> (length data < 3 \<or> workout_col_indices (data ! 1) = []
         \<or> exercise_block (drop 2 data) = [])"
      by (auto simp: sd)
    from False q obtain c where c: "spec_first_open (last (exercise_block (drop 2 data)))
         (workout_col_indices (data ! 1)) = Inr (Some c)"
      using Cons.prems by (auto simp: sd split: sum.splits option.splits)
    with q Cons.prems have "spec_todo c 0 (exercise_block (drop 2 data)) = Inr todo"
       "ot = Some t" "od = Some (data ! 1 ! c)"
      by (auto simp: sd split: sum.splits)
    with q c show ?thesis
      by (intro disjI2 exI[of _ t] exI[of _ data] exI[of _ c]) (simp add: sd)
  qed
qed

lemma resolve_spec_skip:
  assumes "\<forall>sd\<in>set before. length (snd sd) < 3 \<or> workout_col_indices (snd sd ! 1) = []"
  shows "resolve_spec (before @ sheets) = resolve_spec sheets"
  using assms by (induction before) auto

lemma spec_first_open_returns:
  "list_all (\<lambda>c. c < length r) cols \<Longrightarrow> \<exists>oc. spec_first_open r cols = Inr oc"
  by (induction cols) (auto simp: py_get_def)

lemma spec_todo_returns:
  "list_all (\<lambda>r. 4 \<le> length r \<and> c < length r) block \<Longrightarrow> \<exists>xs. spec_todo c i block = Inr xs"
proof (induction block arbitrary: i)
  case Nil
  then show ?case by simp
next
  case (Cons r block)
  then have r: "4 \<le> length r" "c < length r"
    and rest: "list_all (\<lambda>r. 4 \<le> length r \<and> c < length r) block"
    by simp_all
  from Cons.IH[OF rest, of "i + 1"] obtain ys where "spec_todo c (i + 1) block = Inr ys"
    by blast
  with r show ?case by (simp add: py_get_def spec_entry_def)
qed

lemma resolve_spec_returns: "sheets_ok sheets \<Longrightarrow> \<exists>res. resolve_spec sheets = Inr res"
proof (induction sheets)
  case Nil
  then show ?case by simp
next
  case (Cons sd sheets)
  obtain t data where sd: "sd = (t, data)" by (cases sd)
  from Cons.prems have rows: "list_all (exercise_row_ok (data ! 1)) (drop 2 data)"
    and rest: "sheets_ok sheets"
    by (simp_all add: sheets_ok_def snapshot_ok_def sd)
  let ?block = "exercise_block (drop 2 data)"
  let ?cols = "workout_col_indices (data ! 1)"
  have sub: "set ?block \<subseteq> set (drop 2 data)"
    by (auto simp: exercise_block_def dest: set_takeWhileD)
  with rows have block: "\<forall>r\<in>set ?block. exercise_row_ok (data ! 1) r"
    by (auto simp: list_all_iff)
  show ?case
  proof (cases "length data < 3 \<or> ?cols = [] \<or> ?block = []")
    case True
    with Cons.IH[OF rest] show ?thesis by (auto simp: sd)
  next
    case False
    then have "last ?block \<in> set ?block" by simp
    with block have "list_all (\<lambda>c. c < length (last ?block)) ?cols"
      by (simp add: exercise_row_ok_def)
    from spec_first_open_returns[OF this] obtain oc where oc: "spec_first_open (last ?block) ?cols = Inr oc"
      by blast
    show ?thesis
    proof (cases oc)
      case None
      with oc False Cons.IH[OF rest] show ?thesis by (simp add: sd)
    next
      case (Some c)
      with oc have "c \<in> set ?cols" by (simp add: spec_first_open_Some)
      with block have "list_all (\<lambda>r. 4 \<le> length r \<and> c < length r) ?block"
        by (auto simp: list_all_iff exercise_row_ok_def)
      from spec_todo_returns[OF this, of 0] obtain xs where "spec_todo c 0 ?block = Inr xs"
        by blast
      with oc Some False show ?thesis by (simp add: sd)
    qed
  qed
qed

lemmas sheet_eval =
  example_plan_def example_week_def workout_col_indices_def workout_cols_def
  is_workout_actual_def enumerate_eq_zip py_get_def has_name_def exercise_block_def
  spec_entry_def

text \<open>
  C3. On every snapshot set the code returns what the specification's resolver returns,
  errors included: for the first workout column, in header order, whose cell in the last
  row of the block is empty, the sheet's name, the to-do list that was built and the
  column's header. \<open>resolve_spec\<close> returns the list whether it is empty or not and never
  goes on to a later column or sheet after a column was chosen; the code tests the list
  first (line 260), but the list of a chosen column always holds the entry of the last row
  of the block (\<open>spec_todo_last\<close>), so the test never sends the scan elsewhere.
\<close>

theorem resolver_surfaces_selection:
  "find_next_workout_and_exercises sheets = resolve_spec sheets"
  by (simp add: find_next_workout_and_exercises_def find_in_sheets_spec)

theorem resolver_surfaces_selection_witness:
  "resolve_spec example_plan =
     Inr (Some ''Month 1 - Week 1'',
          [\<lparr>name = ''Plank'', sets_goal = ''3'', reps_goal = ''45-60 sec'', rest = ''30 sec'',
             gspread_row = 4, gspread_col = 6\<rparr>,
           \<lparr>name = ''Squats'', sets_goal = ''3'', reps_goal = ''12'', rest = ''60 sec'',
             gspread_row = 5, gspread_col = 6\<rparr>],
          Some ''Workout 2 (Actual)'')"
proof -
  have "find_next_workout_and_exercises example_plan =
     Inr (Some ''Month 1 - Week 1'',
          [\<lparr>name = ''Plank'', sets_goal = ''3'', reps_goal = ''45-60 sec'', rest = ''30 sec'',
             gspread_row = 4, gspread_col = 6\<rparr>,
           \<lparr>name = ''Squats'', sets_goal = ''3'', reps_goal = ''12'', rest = ''60 sec'',
             gspread_row = 5, gspread_col = 6\<rparr>],
          Some ''Workout 2 (Actual)'')"
    by (simp add: sheet_eval find_next_workout_and_exercises_def)
  then show ?thesis
    using resolver_surfaces_selection[of example_plan] by simp
qed

text \<open>
  C9. On every snapshot set that follows the data model the resolver returns; and whatever
  it returns, the sheet name is not \<open>None\<close> if and only if the to-do list is not empty, and
  when a sheet is returned, the to-do list has an entry for the last row of that sheet's
  exercise block: its \<open>gspread_row\<close> is the length of the block + 2 and its name is that
  row's name cell.
\<close>

theorem resolver_sheet_iff_todo:
  "(sheets_ok sheets \<longrightarrow> (\<exists>res. find_next_workout_and_exercises sheets = Inr res))
   \<and> (\<forall>sheet todo day. find_next_workout_and_exercises sheets = Inr (sheet, todo, day) \<longrightarrow>
         (sheet \<noteq> None \<longleftrightarrow> todo \<noteq> []) \<and>
         (\<forall>title. sheet = Some title \<longrightarrow>
            (\<exists>data. (title, data) \<in> set sheets \<and> exercise_block (drop 2 data) \<noteq> [] \<and>
               (\<exists>e\<in>set todo. gspread_row e = length (exercise_block (drop 2 data)) + 2
                  \<and> name e = last (exercise_block (drop 2 data)) ! 0))))"
proof (rule conjI)
  show "sheets_ok sheets \<longrightarrow> (\<exists>res. find_next_workout_and_exercises sheets = Inr res)"
    using resolve_spec_returns[of sheets]
    by (simp add: find_next_workout_and_exercises_def find_in_sheets_spec)
next
  show "\<forall>sheet todo day. find_next_workout_and_exercises sheets = Inr (sheet, todo, day) \<longrightarrow>
         (sheet \<noteq> None \<longleftrightarrow> todo \<noteq> []) \<and>
         (\<forall>title. sheet = Some title \<longrightarrow>
            (\<exists>data. (title, data) \<in> set sheets \<and> exercise_block (drop 2 data) \<noteq> [] \<and>
               (\<exists>e\<in>set todo. gspread_row e = length (exercise_block (drop 2 data)) + 2
                  \<and> name e = last (exercise_block (drop 2 data)) ! 0)))"
  proof (intro allI impI)
    fix sheet todo day
    assume "find_next_workout_and_exercises sheets = Inr (sheet, todo, day)"
    then have r: "resolve_spec sheets = Inr (sheet, todo, day)"
      by (simp add: find_next_workout_and_exercises_def find_in_sheets_spec)
    from resolve_spec_result[OF r]
    show "(sheet \<noteq> None \<longleftrightarrow> todo \<noteq> []) \<and>
           (\<forall>title. sheet = Some title \<longrightarrow>
              (\<exists>data. (title, data) \<in> set sheets \<and> exercise_block (drop 2 data) \<noteq> [] \<and>
                 (\<exists>e\<in>set todo. gspread_row e = length (exercise_block (drop 2 data)) + 2
                    \<and> name e = last (exercise_block (drop 2 data)) ! 0)))"
    proof
      assume "sheet = None \<and> todo = [] \<and> day = None"
      then show ?thesis by simp
    next
      assume "\<exists>t data c. sheet = Some t \<and> day = Some (data ! 1 ! c) \<and> (t, data) \<in> set sheets
          \<and> 3 \<le> length data \<and> exercise_block (drop 2 data) \<noteq> []
          \<and> spec_first_open (last (exercise_block (drop 2 data))) (workout_col_indices (data ! 1))
              = Inr (Some c)
          \<and> spec_todo c 0 (exercise_block (drop 2 data)) = Inr todo"
      then obtain t data c where t: "sheet = Some t" and mem: "(t, data) \<in> set sheets"
        and blk: "exercise_block (drop 2 data) \<noteq> []"
        and fo: "spec_first_open (last (exercise_block (drop 2 data))) (workout_col_indices (data ! 1))
              = Inr (Some c)"
        and td: "spec_todo c 0 (exercise_block (drop 2 data)) = Inr todo"
        by blast
      from spec_first_open_Some[OF fo] have "py_get (last (exercise_block (drop 2 data))) c = Inr []"
        by simp
      from spec_todo_last[OF blk this td]
      have ex: "\<exists>e\<in>set todo. gspread_row e = length (exercise_block (drop 2 data)) + 2
                    \<and> name e = last (exercise_block (drop 2 data)) ! 0"
        by simp
      then have "todo \<noteq> []" by auto
      with t mem blk ex show ?thesis by auto
    qed
  qed
qed

theorem resolver_sheet_iff_todo_witness:
  "sheets_ok example_plan
   \<and> (\<exists>res. find_next_workout_and_exercises example_plan = Inr res)
   \<and> find_next_workout_and_exercises example_plan =
     Inr (Some ''Month 1 - Week 1'',
          [\<lparr>name = ''Plank'', sets_goal = ''3'', reps_goal = ''45-60 sec'', rest = ''30 sec'',
             gspread_row = 4, gspread_col = 6\<rparr>,
           \<lparr>name = ''Squats'', sets_goal = ''3'', reps_goal = ''12'', rest = ''60 sec'',
             gspread_row = 5, gspread_col = 6\<rparr>],
          Some ''Workout 2 (Actual)'')
   \<and> (\<exists>data. (''Month 1 - Week 1'', data) \<in> set example_plan
          \<and> exercise_block (drop 2 data) \<noteq> []
          \<and> (\<exists>e. e \<in> set [\<lparr>name = ''Plank'', sets_goal = ''3'', reps_goal = ''45-60 sec'',
                            rest = ''30 sec'', gspread_row = 4, gspread_col = 6\<rparr>,
                          \<lparr>name = ''Squats'', sets_goal = ''3'', reps_goal = ''12'',
                            rest = ''60 sec'', gspread_row = 5, gspread_col = 6\<rparr>]
                \<and> gspread_row e = length (exercise_block (drop 2 data)) + 2
                \<and> name e = last (exercise_block (drop 2 data)) ! 0))"
proof -
  have run: "find_next_workout_and_exercises example_plan =
     Inr (Some ''Month 1 - Week 1'',
          [\<lparr>name = ''Plank'', sets_goal = ''3'', reps_goal = ''45-60 sec'', rest = ''30 sec'',
             gspread_row = 4, gspread_col = 6\<rparr>,
           \<lparr>name = ''Squats'', sets_goal = ''3'', reps_goal = ''12'', rest = ''60 sec'',
             gspread_row = 5, gspread_col = 6\<rparr>],
          Some ''Workout 2 (Actual)'')"
    by (simp add: sheet_eval find_next_workout_and_exercises_def)
  have ok: "sheets_ok example_plan"
    by (simp add: sheets_ok_def snapshot_ok_def exercise_row_ok_def sheet_eval)
  note inst = resolver_sheet_iff_todo[of example_plan]
  from inst ok have "\<exists>res. find_next_workout_and_exercises example_plan = Inr res"
    by blast
  with inst[THEN conjunct2, rule_format, OF run] run ok show ?thesis
    unfolding Bex_def by simp
qed

text \<open>
  C10. Whenever the resolver returns a to-do list that is not empty, it returns a sheet of
  the snapshot set and the header of that sheet's chosen column (the first workout column
  whose cell in the last row of the block is empty); every entry has \<open>gspread_col\<close> = that
  column's offset + 1, the \<open>gspread_row\<close> values strictly increase along the list, and each
  lies between 3 and 2 + the length of the sheet's exercise block.
\<close>

theorem resolver_todo_targets:
  assumes "find_next_workout_and_exercises sheets = Inr (sheet, todo, day)" and "todo \<noteq> []"
  shows "\<exists>title data c. sheet = Some title \<and> day = Some (data ! 1 ! c)
           \<and> (title, data) \<in> set sheets
           \<and> spec_first_open (last (exercise_block (drop 2 data)))
                (workout_col_indices (data ! 1)) = Inr (Some c)
           \<and> (\<forall>e\<in>set todo. gspread_col e = c + 1 \<and> 3 \<le> gspread_row e
                  \<and> gspread_row e \<le> 2 + length (exercise_block (drop 2 data)))
           \<and> sorted_wrt (<) (map gspread_row todo)"
proof -
  from assms have r: "resolve_spec sheets = Inr (sheet, todo, day)"
    by (simp add: find_next_workout_and_exercises_def find_in_sheets_spec)
  from resolve_spec_result[OF r] assms(2)
  obtain t data c where t: "sheet = Some t" "day = Some (data ! 1 ! c)" and mem: "(t, data) \<in> set sheets"
      and fo: "spec_first_open (last (exercise_block (drop 2 data))) (workout_col_indices (data ! 1))
            = Inr (Some c)"
      and td: "spec_todo c 0 (exercise_block (drop 2 data)) = Inr todo"
    by blast
  from spec_todo_props[OF td]
  have "(\<forall>e\<in>set todo. gspread_col e = c + 1 \<and> 3 \<le> gspread_row e
                  \<and> gspread_row e \<le> 2 + length (exercise_block (drop 2 data)))
           \<and> sorted_wrt (<) (map gspread_row todo)"
    by fastforce
  with t mem fo show ?thesis by blast
qed

theorem resolver_todo_targets_witness:
  "find_next_workout_and_exercises example_plan =
     Inr (Some ''Month 1 - Week 1'',
          [\<lparr>name = ''Plank'', sets_goal = ''3'', reps_goal = ''45-60 sec'', rest = ''30 sec'',
             gspread_row = 4, gspread_col = 6\<rparr>,
           \<lparr>name = ''Squats'', sets_goal = ''3'', reps_goal = ''12'', rest = ''60 sec'',
             gspread_row = 5, gspread_col = 6\<rparr>],
          Some ''Workout 2 (Actual)'')
   \<and> (\<exists>title data c. Some ''Month 1 - Week 1'' = Some title
          \<and> Some ''Workout 2 (Actual)'' = Some (data ! 1 ! c)
          \<and> (title, data) \<in> set example_plan
          \<and> spec_first_open (last (exercise_block (drop 2 data)))
                (workout_col_indices (data ! 1)) = Inr (Some c)
          \<and> (6 = c + 1 \<and> 4 \<le> 2 + length (exercise_block (drop 2 data)))
          \<and> (6 = c + 1 \<and> 5 \<le> 2 + length (exercise_block (drop 2 data))))"
proof -
  have run: "find_next_workout_and_exercises example_plan =
     Inr (Some ''Month 1 - Week 1'',
          [\<lparr>name = ''Plank'', sets_goal = ''3'', reps_goal = ''45-60 sec'', rest = ''30 sec'',
             gspread_row = 4, gspread_col = 6\<rparr>,
           \<lparr>name = ''Squats'', sets_goal = ''3'', reps_goal = ''12'', rest = ''60 sec'',
             gspread_row = 5, gspread_col = 6\<rparr>],
          Some ''Workout 2 (Actual)'')"
    by (simp add: sheet_eval find_next_workout_and_exercises_def)
  from resolver_todo_targets[OF run] run show ?thesis
    by simp
qed

text \<open>
  C5. Let the first qualifying sheet of a snapshot set (every sheet before it has fewer
  than three rows or no workout column) have exactly two workout columns \<open>c1\<close>, \<open>c2\<close> and
  an exercise block of three rows \<open>r1\<close>, \<open>r2\<close>, \<open>r3\<close>, each as long as the header row
  and with the four descriptive cells, with every block cell of \<open>c1\<close> filled and, in \<open>c2\<close>,
  only the cell of \<open>r1\<close> filled. Then the resolver returns that sheet, the header of
  \<open>c2\<close> as the day label, and exactly two entries, for \<open>r2\<close> and \<open>r3\<close>, with
  \<open>gspread_row\<close> 4 and 5 and \<open>gspread_col = c2 + 1\<close>.
\<close>

theorem resolver_second_column:
  assumes skip: "\<forall>sd\<in>set before. length (snd sd) < 3 \<or> workout_col_indices (snd sd ! 1) = []"
    and data: "data = title_row # headers # r1 # r2 # r3 # others"
    and others: "exercise_block others = []"
    and cols: "workout_col_indices headers = [c1, c2]"
    and names: "has_name r1" "has_name r2" "has_name r3"
    and len: "4 \<le> length headers" "length r1 = length headers" "length r2 = length headers"
      "length r3 = length headers"
    and col1: "r1 ! c1 \<noteq> []" "r2 ! c1 \<noteq> []" "r3 ! c1 \<noteq> []"
    and col2: "r1 ! c2 \<noteq> []" "r2 ! c2 = []" "r3 ! c2 = []"
  shows "find_next_workout_and_exercises (before @ (title, data) # later) =
     Inr (Some title,
          [\<lparr>name = r2 ! 0, sets_goal = r2 ! 1, reps_goal = r2 ! 2, rest = r2 ! 3,
             gspread_row = 4, gspread_col = c2 + 1\<rparr>,
           \<lparr>name = r3 ! 0, sets_goal = r3 ! 1, reps_goal = r3 ! 2, rest = r3 ! 3,
             gspread_row = 5, gspread_col = c2 + 1\<rparr>],
          Some (headers ! c2))"
proof -
  have blk: "exercise_block (drop 2 data) = [r1, r2, r3]"
    using names others by (simp add: data exercise_block_def)
  have c: "c1 < length headers" "c2 < length headers"
    using workout_col_indices_bound[of c1 headers] workout_col_indices_bound[of c2 headers] cols
    by simp_all
  have fo: "spec_first_open r3 [c1, c2] = Inr (Some c2)"
    using c len col1 col2 by (simp add: py_get_def)
  have td: "spec_todo c2 0 [r1, r2, r3] =
     Inr [\<lparr>name = r2 ! 0, sets_goal = r2 ! 1, reps_goal = r2 ! 2, rest = r2 ! 3,
             gspread_row = 4, gspread_col = c2 + 1\<rparr>,
           \<lparr>name = r3 ! 0, sets_goal = r3 ! 1, reps_goal = r3 ! 2, rest = r3 ! 3,
             gspread_row = 5, gspread_col = c2 + 1\<rparr>]"
    using c len col2 by (simp add: py_get_def spec_entry_def)
  have "resolve_spec ((title, data) # later) = Inr (Some title,
          [\<lparr>name = r2 ! 0, sets_goal = r2 ! 1, reps_goal = r2 ! 2, rest = r2 ! 3,
             gspread_row = 4, gspread_col = c2 + 1\<rparr>,
           \<lparr>name = r3 ! 0, sets_goal = r3 ! 1, reps_goal = r3 ! 2, rest = r3 ! 3,
             gspread_row = 5, gspread_col = c2 + 1\<rparr>],
          Some (headers ! c2))"
    using blk fo td cols by (simp add: data)
  then show ?thesis
    by (simp add: find_next_workout_and_exercises_def find_in_sheets_spec
        resolve_spec_skip[OF skip])
qed

theorem resolver_second_column_witness:
  "find_next_workout_and_exercises example_plan =
     Inr (Some ''Month 1 - Week 1'',
          [\<lparr>name = ''Plank'', sets_goal = ''3'', reps_goal = ''45-60 sec'', rest = ''30 sec'',
             gspread_row = 4, gspread_col = 6\<rparr>,
           \<lparr>name = ''Squats'', sets_goal = ''3'', reps_goal = ''12'', rest = ''60 sec'',
             gspread_row = 5, gspread_col = 6\<rparr>],
          Some ''Workout 2 (Actual)'')"
proof -
  have cols: "workout_col_indices
      [''Exercise'', ''Sets'', ''Reps'', ''Rest'', ''Workout 1 (Actual)'', ''Workout 2 (Actual)'']
      = [4, 5]"
    by (simp add: workout_col_indices_def workout_cols_def is_workout_actual_def enumerate_eq_zip)
  have skip: "\<forall>sd\<in>set [(''Month 1 - Notes'', [[''Notes'']])].
      length (snd sd) < 3 \<or> workout_col_indices (snd sd ! 1) = []"
    by simp
  have block_end: "exercise_block [] = []"
    by (simp add: exercise_block_def)
  show ?thesis
    using resolver_second_column[where before = "[(''Month 1 - Notes'', [[''Notes'']])]"
        and data = example_week and title = "''Month 1 - Week 1''" and later = "[]"
        and title_row = "[''Week 1'', [], [], [], [], []]"
        and headers = "[''Exercise'', ''Sets'', ''Reps'', ''Rest'', ''Workout 1 (Actual)'',
                        ''Workout 2 (Actual)'']"
        and ?r1.0 = "[''Push-ups'', ''3'', ''10'', ''60 sec'', ''10, 9, 8'', ''10, 10, 9'']"
        and ?r2.0 = "[''Plank'', ''3'', ''45-60 sec'', ''30 sec'', ''45 sec'', []]"
        and ?r3.0 = "[''Squats'', ''3'', ''12'', ''60 sec'', ''12, 12, 12'', []]"
        and others = "[]" and ?c1.0 = 4 and ?c2.0 = 5, OF skip _ block_end cols]
    by (simp add: example_plan_def example_week_def has_name_def)
qed

subsection \<open>\<open>calculate_overall_completion\<close>\<close>








lemma block_length_fills:
  "list_all2 row_fills rows rows' \<Longrightarrow> length (exercise_block rows') = length (exercise_block rows)"
  by (induction rule: list_all2_induct) (auto simp: exercise_block_def row_fills_def)

lemma filled_cols_fills:
  assumes "row_fills r r'"
  shows "filled_cols r cols f = Inr g \<Longrightarrow> f \<le> f' \<Longrightarrow>
           \<exists>g'. filled_cols r' cols f' = Inr g' \<and> g \<le> g'"
proof (induction cols arbitrary: f f')
  case Nil
  then show ?case by simp
next
  case (Cons c cols)
  from Cons.prems(1) have c: "c < length r"
    and rest: "filled_cols r cols (if r ! c \<noteq> [] then f + 1 else f) = Inr g"
    by (auto simp: py_get_def split: if_splits)
  from assms c have c': "c < length r'" and cell: "r ! c \<noteq> [] \<longrightarrow> r' ! c \<noteq> []"
    by (simp_all add: row_fills_def)
  from cell Cons.prems(2)
  have "(if r ! c \<noteq> [] then f + 1 else f) \<le> (if r' ! c \<noteq> [] then f' + 1 else f')"
    by auto
  from Cons.IH[OF rest this] c' show ?case by (simp add: py_get_def)
qed

lemma filled_rows_fills:
  assumes "list_all2 row_fills rows rows'"
  shows "filled_rows rows idxs cols f = Inr g \<Longrightarrow> f \<le> f' \<Longrightarrow>
           \<exists>g'. filled_rows rows' idxs cols f' = Inr g' \<and> g \<le> g'"
proof (induction idxs arbitrary: f f')
  case Nil
  then show ?case by simp
next
  case (Cons i idxs)
  from Cons.prems(1) obtain h where i: "i < length rows"
    and h: "filled_cols (rows ! i) cols f = Inr h"
    and rest: "filled_rows rows idxs cols h = Inr g"
    by (auto simp: py_get_def split: if_splits sum.splits)
  from assms i have i': "i < length rows'" and rf: "row_fills (rows ! i) (rows' ! i)"
    by (simp_all add: list_all2_conv_all_nth)
  from filled_cols_fills[OF rf h Cons.prems(2)]
  obtain h' where h': "filled_cols (rows' ! i) cols f' = Inr h'" and le: "h \<le> h'"
    by blast
  from Cons.IH[OF rest le] h' i' show ?case by (simp add: py_get_def)
qed

lemma completion_sheets_fills:
  "list_all2 sheet_fills sheets sheets' \<Longrightarrow> completion_sheets sheets t f = Inr (t', g) \<Longrightarrow>
     f \<le> f' \<Longrightarrow> \<exists>g'. completion_sheets sheets' t f' = Inr (t', g') \<and> g \<le> g'"
proof (induction arbitrary: t f f' rule: list_all2_induct)
  case Nil
  then show ?case by simp
next
  case (Cons sd sheets sd' sheets')
  obtain title data where sd: "sd = (title, data)" by (cases sd)
  obtain title' data' where sd': "sd' = (title', data')" by (cases sd')
  from Cons.hyps(1) have len: "length data' = length data" and hdr: "data' ! 1 = data ! 1"
    and rows: "list_all2 row_fills (drop 2 data) (drop 2 data')"
    by (simp_all add: sheet_fills_def sd sd')
  note hdr = hdr hdr[unfolded One_nat_def]
  let ?n = "length (exercise_block (drop 2 data))"
  let ?cols = "workout_col_indices (data ! 1)"
  have n: "length (exercise_block (drop 2 data')) = ?n"
    by (rule block_length_fills[OF rows])
  show ?case
  proof (cases "length data < 3 \<or> ?cols = [] \<or> ?n = 0")
    case True
    with Cons.prems(1) have "completion_sheets sheets t f = Inr (t', g)"
      by (auto simp: sd count_exercises_block split: if_splits)
    from Cons.IH[OF this Cons.prems(2)] True show ?thesis
      by (auto simp: sd' len hdr n count_exercises_block split: if_splits)
  next
    case False
    with Cons.prems(1) obtain h where h: "filled_rows (drop 2 data) [0 ..< ?n] ?cols f = Inr h"
      and rest: "completion_sheets sheets (t + ?n * length ?cols) h = Inr (t', g)"
      by (auto simp: sd count_exercises_block split: sum.splits)
    from filled_rows_fills[OF rows h Cons.prems(2)]
    obtain h' where h': "filled_rows (drop 2 data') [0 ..< ?n] ?cols f' = Inr h'" and le: "h \<le> h'"
      by blast
    from Cons.IH[OF rest le] h' False show ?thesis
      by (auto simp: sd' len hdr n count_exercises_block)
  qed
qed

lemma row_fills_refl: "row_fills r r"
  by (simp add: row_fills_def)

lemma sheet_fills_refl: "sheet_fills sd sd"
  by (simp add: sheet_fills_def list_all2_refl row_fills_refl)

lemma row_fills_update:
  assumes "1 \<le> c" and "r ! c = []"
  shows "row_fills r (r[c := v])"
proof -
  have "has_name (r[c := v]) = has_name r"
    using assms(1) by (cases r; cases c) (simp_all add: has_name_def)
  moreover have "r[c := v] ! j \<noteq> []" if "r ! j \<noteq> []" for j
    using that assms(2) by (cases "j = c") auto
  ultimately show ?thesis by (simp add: row_fills_def)
qed

lemma sheet_fills_update:
  assumes "2 \<le> i" and "i < length data" and "1 \<le> c" and "data ! i ! c = []"
  shows "sheet_fills (title, data) (title, data[i := (data ! i)[c := v]])"
proof -
  let ?rows = "drop 2 data"
  have i2: "i - 2 < length ?rows" using assms(1,2) by simp
  have "?rows ! (i - 2) = data ! (2 + (i - 2))"
    using assms(1,2) by (intro nth_drop) simp
  moreover have "2 + (i - 2) = i" using assms(1) by simp
  ultimately have at: "?rows ! (i - 2) = data ! i" by simp
  have upd: "drop 2 (data[i := (data ! i)[c := v]]) = ?rows[i - 2 := (data ! i)[c := v]]"
    using assms(1) by (simp add: drop_update_swap)
  have "list_all2 row_fills (?rows[i - 2 := ?rows ! (i - 2)]) (?rows[i - 2 := (data ! i)[c := v]])"
    by (rule list_all2_update_cong)
       (simp_all add: list_all2_refl row_fills_refl at row_fills_update[OF assms(3,4)])
  then have "list_all2 row_fills ?rows (?rows[i - 2 := (data ! i)[c := v]])"
    by simp
  moreover have "data[i := (data ! i)[c := v]] ! 1 = data ! 1"
    using assms(1) by simp
  ultimately show ?thesis by (simp add: sheet_fills_def upd)
qed



text \<open>
  C8. Let \<open>B\<close> be the snapshot set \<open>A\<close> with one empty cell of an exercise row (row index
  \<open>\<ge> 2\<close>), outside the name column (column index \<open>\<ge> 1\<close>), changed to a non-empty value.
  If the calculator returns on \<open>A\<close>, it returns on \<open>B\<close> with the same \<open>total_slots\<close>, at
  least as many \<open>filled_slots\<close> and a percentage that is not smaller.
\<close>

theorem completion_monotone:
  assumes "k < length A" and "A ! k = (title, data)"
    and "2 \<le> i" and "i < length data" and "1 \<le> c" and "c < length (data ! i)"
    and "data ! i ! c = []" and "v \<noteq> []"
    and "B = A[k := (title, data[i := (data ! i)[c := v]])]"
    and "calculate_overall_completion A = Inr (total_slots, filled_slots, percentage)"
  shows "\<exists>filled_slots' percentage'. calculate_overall_completion B = Inr (total_slots, filled_slots', percentage')
           \<and> filled_slots \<le> filled_slots' \<and> percentage \<le> percentage'"
proof -
  have "list_all2 sheet_fills (A[k := A ! k]) (A[k := (title, data[i := (data ! i)[c := v]])])"
    by (rule list_all2_update_cong)
       (simp_all add: list_all2_refl sheet_fills_refl assms(2) sheet_fills_update[OF assms(3,4,5,7)])
  then have rel: "list_all2 sheet_fills A B"
    by (simp add: assms(9))
  from assms(10) obtain t f where run: "completion_sheets A 0 0 = Inr (t, f)"
    by (auto simp: calculate_overall_completion_def split: sum.splits)
  from completion_sheets_fills[OF rel run, of 0]
  obtain f' where run': "completion_sheets B 0 0 = Inr (t, f')" and le: "f \<le> f'"
    by auto
  show ?thesis
  proof (cases "t = 0")
    case True
    with assms(10) run run' show ?thesis
      by (simp add: calculate_overall_completion_def)
  next
    case False
    from le have "(of_nat f :: rat) * 100 / of_nat t \<le> of_nat f' * 100 / of_nat t"
      by (intro divide_right_mono mult_right_mono) simp_all
    with False assms(10) run run' le show ?thesis
      by (auto simp: calculate_overall_completion_def)
  qed
qed

theorem completion_monotone_witness:
  "calculate_overall_completion example_plan = Inr (6, 4, 200 / 3)
   \<and> (\<exists>filled_slots' percentage'.
         calculate_overall_completion
           (example_plan[1 := (''Month 1 - Week 1'',
                               example_week[3 := (example_week ! 3)[5 := ''40 sec'']])])
           = Inr (6, filled_slots', percentage')
         \<and> 4 \<le> filled_slots' \<and> 200 / 3 \<le> percentage')"
proof -
  have run: "calculate_overall_completion example_plan = Inr (6, 4, 200 / 3)"
    by (simp add: calculate_overall_completion_def sheet_eval count_exercises_block)
  have "\<exists>filled_slots' percentage'.
         calculate_overall_completion
           (example_plan[1 := (''Month 1 - Week 1'',
                               example_week[3 := (example_week ! 3)[5 := ''40 sec'']])])
           = Inr (6, filled_slots', percentage')
         \<and> 4 \<le> filled_slots' \<and> 200 / 3 \<le> percentage'"
    by (rule completion_monotone[where k = 1 and A = example_plan and data = example_week
          and i = 3 and c = 5 and v = "''40 sec''", OF _ _ _ _ _ _ _ _ refl run])
       (simp_all add: example_plan_def example_week_def)
  with run show ?thesis by simp
qed

subsection \<open>\<open>load_and_process_history\<close>\<close>

lemma py_int_single:
  "py_int maxd [ch] = (if py_isdecimal ch then Inr (digit_value ch) else Inl ValueError)"
  by (simp add: py_int_def)

lemma header_digit_read:
  "(case py_get h 8 of Inl e \<Rightarrow> Inl e | Inr ch \<Rightarrow> py_int maxd [ch]) = Inr d
     \<longleftrightarrow> header_digit_ok h \<and> d = header_digit h"
  by (auto simp: py_get_def py_int_single header_digit_ok_def header_digit_def)

lemma history_cols_Inr:
  "history_cols maxd t n r k cols acc = Inr out \<Longrightarrow>
     (\<exists>new. out = acc @ new \<and> (\<forall>rec\<in>set new. from_column t k cols rec))
     \<and> (\<forall>ch\<in>set cols. fst ch < length r \<and> (r ! fst ch \<noteq> [] \<longrightarrow> header_digit_ok (snd ch)))"
proof (induction cols arbitrary: acc)
  case Nil
  then show ?case by simp
next
  case (Cons ch cols)
  obtain c h where ch: "ch = (c, h)" by (cases ch)
  from Cons.prems have c: "c < length r"
    by (auto simp: ch py_get_def split: if_splits)
  show ?case
  proof (cases "r ! c = []")
    case True
    with Cons.prems c have "history_cols maxd t n r k cols acc = Inr out"
      by (simp add: ch py_get_def)
    from Cons.IH[OF this] True c show ?thesis
      by (auto simp: ch from_column_def)
  next
    case False
    with Cons.prems c obtain d where
      d: "(case py_get h 8 of Inl e \<Rightarrow> Inl e | Inr x \<Rightarrow> py_int maxd [x]) = Inr d"
      and rest: "history_cols maxd t n r k cols
                   (acc @ [\<lparr>Sheet = t, Day = h, Exercise = n, Actual_Raw = r ! c,
                             Workout_Order = k + d\<rparr>]) = Inr out"
      by (auto simp: ch py_get_def split: sum.splits if_splits)
    from d have ok: "header_digit_ok h" and dv: "d = header_digit h"
      by (simp_all add: header_digit_read)
    have first: "from_column t k ((c, h) # cols)
                   \<lparr>Sheet = t, Day = h, Exercise = n, Actual_Raw = r ! c, Workout_Order = k + d\<rparr>"
      using ok dv by (simp add: from_column_def)
    from Cons.IH[OF rest] obtain new where
      new: "out = (acc @ [\<lparr>Sheet = t, Day = h, Exercise = n, Actual_Raw = r ! c,
                            Workout_Order = k + d\<rparr>]) @ new"
      and props: "\<forall>rec\<in>set new. from_column t k cols rec"
      and cells: "\<forall>ch\<in>set cols. fst ch < length r \<and> (r ! fst ch \<noteq> [] \<longrightarrow> header_digit_ok (snd ch))"
      by blast
    from props have "\<forall>rec\<in>set new. from_column t k ((c, h) # cols) rec"
      by (auto simp: from_column_def)
    with first new have "\<exists>new'. out = acc @ new' \<and> (\<forall>rec\<in>set new'. from_column t k ((c, h) # cols) rec)"
      by (intro exI[of _ "\<lparr>Sheet = t, Day = h, Exercise = n, Actual_Raw = r ! c,
                            Workout_Order = k + d\<rparr> # new"]) simp
    with cells c ok show ?thesis by (simp add: ch)
  qed
qed

lemma history_rows_Inr:
  "history_rows maxd t k cols rows acc = Inr out \<Longrightarrow>
     (\<exists>new. out = acc @ new \<and> (\<forall>rec\<in>set new. from_column t k cols rec))
     \<and> (\<forall>r\<in>set rows. has_name r \<longrightarrow>
          (\<forall>ch\<in>set cols. fst ch < length r \<and> (r ! fst ch \<noteq> [] \<longrightarrow> header_digit_ok (snd ch))))"
proof (induction rows arbitrary: acc)
  case Nil
  then show ?case by simp
next
  case (Cons r rows)
  from Cons.prems have r0: "r \<noteq> []"
    by (auto simp: py_get_def split: if_splits)
  show ?case
  proof (cases "has_name r")
    case False
    with r0 have "r ! 0 = []" by (cases r) (simp_all add: has_name_def)
    with Cons.prems r0 have "history_rows maxd t k cols rows acc = Inr out"
      by (simp add: py_get_def)
    from Cons.IH[OF this] False show ?thesis by simp
  next
    case True
    then have "r ! 0 \<noteq> []" by (cases r) (simp_all add: has_name_def)
    with Cons.prems r0 obtain mid where
      mid: "history_cols maxd t (r ! 0) r k cols acc = Inr mid"
      and rest: "history_rows maxd t k cols rows mid = Inr out"
      by (auto simp: py_get_def split: sum.splits)
    from history_cols_Inr[OF mid] obtain new1 where
      n1: "mid = acc @ new1" "\<forall>rec\<in>set new1. from_column t k cols rec"
      and cells: "\<forall>ch\<in>set cols. fst ch < length r \<and> (r ! fst ch \<noteq> [] \<longrightarrow> header_digit_ok (snd ch))"
      by blast
    from Cons.IH[OF rest] obtain new2 where
      n2: "out = mid @ new2" "\<forall>rec\<in>set new2. from_column t k cols rec"
      and others: "\<forall>r\<in>set rows. has_name r \<longrightarrow>
          (\<forall>ch\<in>set cols. fst ch < length r \<and> (r ! fst ch \<noteq> [] \<longrightarrow> header_digit_ok (snd ch)))"
      by blast
    from n1 n2 have "\<exists>new. out = acc @ new \<and> (\<forall>rec\<in>set new. from_column t k cols rec)"
      by (intro exI[of _ "new1 @ new2"]) auto
    with cells others show ?thesis by simp
  qed
qed

lemma workout_count_single:
  "workout_count [sd] + workout_count sheets = workout_count (sd # sheets)"
  by (cases sd) simp

lemma history_sheets_Inr:
  "history_sheets maxd sheets k acc = Inr out \<Longrightarrow>
     (\<exists>new. out = acc @ new \<and>
        (\<forall>rec\<in>set new. \<exists>i<length sheets. 3 \<le> length (snd (sheets ! i)) \<and>
            from_column (fst (sheets ! i)) (k + workout_count (take i sheets))
              (workout_cols (snd (sheets ! i) ! 1)) rec))
     \<and> (\<forall>sd\<in>set sheets. 3 \<le> length (snd sd) \<longrightarrow>
          (\<forall>r\<in>set (drop 2 (snd sd)). has_name r \<longrightarrow>
             (\<forall>ch\<in>set (workout_cols (snd sd ! 1)).
                fst ch < length r \<and> (r ! fst ch \<noteq> [] \<longrightarrow> header_digit_ok (snd ch)))))"
proof (induction sheets arbitrary: k acc)
  case Nil
  then show ?case by simp
next
  case (Cons sd sheets)
  obtain t data where sd: "sd = (t, data)" by (cases sd)
  let ?cols = "workout_cols (data ! 1)"
  let ?P = "\<lambda>ss k rec. \<exists>i<length ss. 3 \<le> length (snd (ss ! i)) \<and>
            from_column (fst (ss ! i)) (k + workout_count (take i ss))
              (workout_cols (snd (ss ! i) ! 1)) rec"
  let ?Q = "\<lambda>sd. 3 \<le> length (snd sd) \<longrightarrow>
          (\<forall>r\<in>set (drop 2 (snd sd)). has_name r \<longrightarrow>
             (\<forall>ch\<in>set (workout_cols (snd sd ! 1)).
                fst ch < length r \<and> (r ! fst ch \<noteq> [] \<longrightarrow> header_digit_ok (snd ch))))"
  have shift: "?P (sd # sheets) k rec" if "?P sheets (k + workout_count [sd]) rec" for rec
  proof -
    from that obtain i where i: "i < length sheets" "3 \<le> length (snd (sheets ! i))"
      "from_column (fst (sheets ! i)) (k + workout_count [sd] + workout_count (take i sheets))
              (workout_cols (snd (sheets ! i) ! 1)) rec"
      by blast
    then show ?thesis
      by (intro exI[of _ "Suc i"]) (simp add: workout_count_single add.assoc)
  qed
  show ?case
  proof (cases "length data < 3 \<or> ?cols = []")
    case True
    with Cons.prems have run: "history_sheets maxd sheets k acc = Inr out"
      by (auto simp: sd split: if_splits)
    from True have zero: "workout_count [sd] = 0" by (auto simp: sd)
    from Cons.IH[OF run] obtain new where new: "out = acc @ new" "\<forall>rec\<in>set new. ?P sheets k rec"
      and others: "\<forall>sd\<in>set sheets. ?Q sd"
      by blast
    from new(2) zero shift have "\<forall>rec\<in>set new. ?P (sd # sheets) k rec" by simp
    moreover from True have "?Q sd" by (auto simp: sd)
    ultimately show ?thesis using new(1) others by auto
  next
    case False
    with Cons.prems obtain mid where
      mid: "history_rows maxd t k ?cols (drop 2 data) acc = Inr mid"
      and rest: "history_sheets maxd sheets (k + length ?cols) mid = Inr out"
      by (auto simp: sd split: sum.splits)
    from False have cnt: "workout_count [sd] = length ?cols" by (simp add: sd)
    from history_rows_Inr[OF mid] obtain new1 where
      n1: "mid = acc @ new1" "\<forall>rec\<in>set new1. from_column t k ?cols rec"
      and cells: "\<forall>r\<in>set (drop 2 data). has_name r \<longrightarrow>
          (\<forall>ch\<in>set ?cols. fst ch < length r \<and> (r ! fst ch \<noteq> [] \<longrightarrow> header_digit_ok (snd ch)))"
      by blast
    from Cons.IH[OF rest] obtain new2 where
      n2: "out = mid @ new2" "\<forall>rec\<in>set new2. ?P sheets (k + length ?cols) rec"
      and others: "\<forall>sd\<in>set sheets. ?Q sd"
      by blast
    have "?P (sd # sheets) k rec" if "rec \<in> set new1" for rec
      using that n1(2) False by (intro exI[of _ 0]) (simp add: sd)
    moreover have "?P (sd # sheets) k rec" if "rec \<in> set new2" for rec
      using that n2(2) shift cnt by simp
    ultimately have "\<forall>rec\<in>set (new1 @ new2). ?P (sd # sheets) k rec" by auto
    with n1(1) n2(1) have "\<exists>new. out = acc @ new \<and> (\<forall>rec\<in>set new. ?P (sd # sheets) k rec)"
      by (intro exI[of _ "new1 @ new2"]) simp
    moreover from cells have "?Q sd" by (simp add: sd)
    ultimately show ?thesis using others by simp
  qed
qed

lemma history_cols_returns:
  "list_all (\<lambda>ch. fst ch < length r \<and> header_digit_ok (snd ch)) cols \<Longrightarrow>
     \<exists>out. history_cols maxd t n r k cols acc = Inr out"
proof (induction cols arbitrary: acc)
  case Nil
  then show ?case by simp
next
  case (Cons ch cols)
  obtain c h where ch: "ch = (c, h)" by (cases ch)
  from Cons.prems have c: "c < length r" and ok: "header_digit_ok h"
    and rest: "list_all (\<lambda>ch. fst ch < length r \<and> header_digit_ok (snd ch)) cols"
    by (simp_all add: ch)
  from ok have "py_get h 8 = Inr (h ! 8)" "py_int maxd [h ! 8] = Inr (digit_value (h ! 8))"
    by (simp_all add: header_digit_ok_def py_get_def py_int_single)
  with c Cons.IH[OF rest] show ?case
    by (simp add: ch py_get_def)
qed

lemma history_rows_returns:
  assumes "list_all (\<lambda>ch. header_digit_ok (snd ch)) cols"
  shows "list_all (\<lambda>r. r \<noteq> [] \<and> list_all (\<lambda>ch. fst ch < length r) cols) rows \<Longrightarrow>
     \<exists>out. history_rows maxd t k cols rows acc = Inr out"
proof (induction rows arbitrary: acc)
  case Nil
  then show ?case by simp
next
  case (Cons r rows)
  then have r0: "r \<noteq> []" and cov: "list_all (\<lambda>ch. fst ch < length r) cols"
    and rest: "list_all (\<lambda>r. r \<noteq> [] \<and> list_all (\<lambda>ch. fst ch < length r) cols) rows"
    by simp_all
  from cov assms have "list_all (\<lambda>ch. fst ch < length r \<and> header_digit_ok (snd ch)) cols"
    by (simp add: list_all_iff)
  from history_cols_returns[OF this, of maxd t "r ! 0" k acc]
  obtain mid where "history_cols maxd t (r ! 0) r k cols acc = Inr mid" by blast
  with r0 Cons.IH[OF rest, of mid] Cons.IH[OF rest, of acc] show ?case
    by (simp add: py_get_def)
qed

lemma history_sheets_returns:
  "sheets_ok sheets \<Longrightarrow> headers_ok sheets \<Longrightarrow> \<exists>out. history_sheets maxd sheets k acc = Inr out"
proof (induction sheets arbitrary: k acc)
  case Nil
  then show ?case by simp
next
  case (Cons sd sheets)
  obtain t data where sd: "sd = (t, data)" by (cases sd)
  from Cons.prems have rows: "list_all (exercise_row_ok (data ! 1)) (drop 2 data)"
    and hdr: "length data < 3 \<or> list_all (\<lambda>ch. header_digit_ok (snd ch)) (workout_cols (data ! 1))"
    and rest: "sheets_ok sheets" "headers_ok sheets"
    by (simp_all add: sheets_ok_def headers_ok_def snapshot_ok_def sd)
  show ?case
  proof (cases "length data < 3")
    case True
    with Cons.IH[OF rest] show ?thesis by (simp add: sd)
  next
    case False
    with hdr have ok: "list_all (\<lambda>ch. header_digit_ok (snd ch)) (workout_cols (data ! 1))"
      by simp
    from rows have "list_all (\<lambda>r. r \<noteq> [] \<and> list_all (\<lambda>ch. fst ch < length r) (workout_cols (data ! 1)))
                      (drop 2 data)"
      by (auto simp: list_all_iff exercise_row_ok_def workout_col_indices_def)
    from history_rows_returns[OF ok this, of maxd t k acc]
    obtain mid where "history_rows maxd t k (workout_cols (data ! 1)) (drop 2 data) acc = Inr mid"
      by blast
    with False Cons.IH[OF rest] show ?thesis by (simp add: sd)
  qed
qed

text \<open>
  A workout header contains "Workout" and "Actual" apart from each other (neither holds the
  other's first letter), so it has at least 13 characters and \<open>day_title[8]\<close> never
  raises IndexError.
\<close>

lemma py_in_sublist: "py_in n h \<longleftrightarrow> sublist n h"
  by (induction h) (simp_all add: sublist_Cons_right)

lemma apart_occurrences:
  assumes a: "sublist a h" and b: "sublist b h" and "a \<noteq> []" and "b \<noteq> []"
    and ab: "hd a \<notin> set b" and ba: "hd b \<notin> set a"
  shows "length a + length b \<le> length h"
proof -
  from a obtain p1 s1 where h1: "h = p1 @ a @ s1" by (auto simp: sublist_def)
  from b obtain p2 s2 where h2: "h = p2 @ b @ s2" by (auto simp: sublist_def)
  have no_b_in_a: False if "length p1 \<le> length p2" "length p2 < length p1 + length a"
  proof -
    have "h ! length p2 = hd b"
      using \<open>b \<noteq> []\<close> by (simp add: h2 nth_append hd_conv_nth)
    moreover have inside: "length p2 - length p1 < length a"
      using that by linarith
    then have "h ! length p2 = a ! (length p2 - length p1)"
      using that(1) by (simp add: h1 nth_append)
    moreover have "a ! (length p2 - length p1) \<in> set a"
      using inside by (rule nth_mem)
    ultimately show False using ba by simp
  qed
  have no_a_in_b: False if "length p2 \<le> length p1" "length p1 < length p2 + length b"
  proof -
    have "h ! length p1 = hd a"
      using \<open>a \<noteq> []\<close> by (simp add: h1 nth_append hd_conv_nth)
    moreover have inside: "length p1 - length p2 < length b"
      using that by linarith
    then have "h ! length p1 = b ! (length p1 - length p2)"
      using that(1) by (simp add: h2 nth_append)
    moreover have "b ! (length p1 - length p2) \<in> set b"
      using inside by (rule nth_mem)
    ultimately show False using ab by simp
  qed
  have l1: "length h = length p1 + length a + length s1" by (simp add: h1)
  have l2: "length h = length p2 + length b + length s2" by (simp add: h2)
  have "length p1 + length a \<le> length p2 \<or> length p2 + length b \<le> length p1"
  proof (cases "length p1 \<le> length p2")
    case True
    with no_b_in_a show ?thesis by fastforce
  next
    case False
    with no_a_in_b show ?thesis by fastforce
  qed
  with l1 l2 show ?thesis by linarith
qed

lemma workout_header_length: "is_workout_actual h \<Longrightarrow> 13 \<le> length h"
  using apart_occurrences[of "''Workout''" h "''Actual''"]
  by (simp add: is_workout_actual_def py_in_sublist)

lemma workout_cols_headers:
  "ch \<in> set (workout_cols headers) \<longleftrightarrow>
     fst ch < length headers \<and> snd ch = headers ! fst ch \<and> is_workout_actual (snd ch)"
  by (cases ch) (auto simp: workout_cols_def in_set_enumerate_eq)

lemma history_cols_error:
  "list_all (\<lambda>ch. fst ch < length r \<and> 8 < length (snd ch)) cols \<Longrightarrow>
     history_cols maxd t n r k cols acc = Inl e \<Longrightarrow> e = ValueError"
proof (induction cols arbitrary: acc)
  case Nil
  then show ?case by simp
next
  case (Cons ch cols)
  obtain c h where ch: "ch = (c, h)" by (cases ch)
  from Cons.prems(1) have c: "c < length r" and h: "8 < length h"
    and rest: "list_all (\<lambda>ch. fst ch < length r \<and> 8 < length (snd ch)) cols"
    by (simp_all add: ch)
  from Cons.prems(2) c h Cons.IH[OF rest] show ?case
    by (auto simp: ch py_get_def py_int_single split: if_splits)
qed

lemma history_rows_error:
  assumes "list_all (\<lambda>ch. 8 < length (snd ch)) cols"
  shows "list_all (\<lambda>r. r \<noteq> [] \<and> list_all (\<lambda>ch. fst ch < length r) cols) rows \<Longrightarrow>
     history_rows maxd t k cols rows acc = Inl e \<Longrightarrow> e = ValueError"
proof (induction rows arbitrary: acc)
  case Nil
  then show ?case by simp
next
  case (Cons r rows)
  then have r0: "r \<noteq> []" and cov: "list_all (\<lambda>ch. fst ch < length r) cols"
    and rest: "list_all (\<lambda>r. r \<noteq> [] \<and> list_all (\<lambda>ch. fst ch < length r) cols) rows"
    by simp_all
  from cov assms have ok: "list_all (\<lambda>ch. fst ch < length r \<and> 8 < length (snd ch)) cols"
    by (simp add: list_all_iff)
  from Cons.prems(2) r0 Cons.IH[OF rest] history_cols_error[OF ok] show ?case
    by (auto simp: py_get_def split: if_splits sum.splits)
qed

lemma history_sheets_error:
  "sheets_ok sheets \<Longrightarrow> history_sheets maxd sheets k acc = Inl e \<Longrightarrow> e = ValueError"
proof (induction sheets arbitrary: k acc)
  case Nil
  then show ?case by simp
next
  case (Cons sd sheets)
  obtain t data where sd: "sd = (t, data)" by (cases sd)
  from Cons.prems(1) have rows: "list_all (exercise_row_ok (data ! 1)) (drop 2 data)"
    and rest: "sheets_ok sheets"
    by (simp_all add: sheets_ok_def snapshot_ok_def sd)
  have long: "list_all (\<lambda>ch. 8 < length (snd ch)) (workout_cols (data ! 1))"
    using workout_header_length by (fastforce simp: list_all_iff workout_cols_headers)
  from rows have cov: "list_all (\<lambda>r. r \<noteq> [] \<and> list_all (\<lambda>ch. fst ch < length r) (workout_cols (data ! 1)))
                      (drop 2 data)"
    by (auto simp: list_all_iff exercise_row_ok_def workout_col_indices_def)
  from Cons.prems(2) Cons.IH[OF rest] history_rows_error[OF long cov] show ?case
    by (auto simp: sd split: if_splits sum.splits)
qed

lemma sorted_filter_enumerate:
  "sorted_wrt (<) (map (\<lambda>ch. g (snd ch)) (filter (\<lambda>(i, h). Q h) (enumerate n hs))) \<Longrightarrow>
     (c1, h1) \<in> set (enumerate n hs) \<Longrightarrow> (c2, h2) \<in> set (enumerate n hs) \<Longrightarrow>
     c1 < c2 \<Longrightarrow> Q h1 \<Longrightarrow> Q h2 \<Longrightarrow> (g h1 :: nat) < g h2"
proof (induction hs arbitrary: n)
  case Nil
  then show ?case by simp
next
  case (Cons h hs)
  from Cons.prems(1) have tail: "sorted_wrt (<) (map (\<lambda>ch. g (snd ch))
       (filter (\<lambda>(i, h). Q h) (enumerate (Suc n) hs)))"
    by (auto split: if_splits)
  show ?case
  proof (cases "(c1, h1) \<in> set (enumerate (Suc n) hs)")
    case True
    with Cons.prems(4) have "Suc n \<le> c2" by (auto simp: in_set_enumerate_eq)
    with Cons.prems(3) have "(c2, h2) \<in> set (enumerate (Suc n) hs)" by auto
    from Cons.IH[OF tail True this Cons.prems(4,5,6)] show ?thesis .
  next
    case False
    with Cons.prems(2) have first: "c1 = n" "h1 = h" by auto
    with Cons.prems(3,4) have "(c2, h2) \<in> set (enumerate (Suc n) hs)" by auto
    with Cons.prems(6) have "(c2, h2) \<in> set (filter (\<lambda>(i, h). Q h) (enumerate (Suc n) hs))"
      by simp
    with Cons.prems(1,5) first show ?thesis by force
  qed
qed

lemma workout_count_append:
  "workout_count (xs @ ys) = workout_count xs + workout_count ys"
  by (induction xs) auto

lemma workout_count_take_mono:
  assumes "i < j" and "j \<le> length sheets"
  shows "workout_count (take i sheets) + workout_count [sheets ! i] \<le> workout_count (take j sheets)"
proof -
  define later where "later = drop (Suc i) (take j sheets)"
  have "take j sheets = take i (take j sheets) @ take j sheets ! i # drop (Suc i) (take j sheets)"
    by (rule id_take_nth_drop) (use assms in simp)
  moreover have "take i (take j sheets) = take i sheets"
    using assms(1) by (simp add: min_def)
  moreover have "take j sheets ! i = sheets ! i"
    using assms(1) by simp
  ultimately have split: "take j sheets = take i sheets @ [sheets ! i] @ later"
    by (simp add: later_def)
  have "workout_count (take j sheets) = workout_count (take i sheets @ [sheets ! i] @ later)"
    by (rule arg_cong[OF split])
  also have "\<dots> = workout_count (take i sheets) + workout_count [sheets ! i] + workout_count later"
    by (simp only: workout_count_append add.assoc)
  finally show ?thesis by simp
qed

lemma history_origin:
  assumes "load_and_process_history maxd sheets = Inr out" and "a \<in> set out"
  shows "\<exists>i<length sheets. 3 \<le> length (snd (sheets ! i)) \<and>
           from_column (fst (sheets ! i)) (workout_count (take i sheets))
             (workout_cols (snd (sheets ! i) ! 1)) (fst a)"
proof -
  from assms(1) obtain recs where recs: "history_sheets maxd sheets 0 [] = Inr recs"
    and out: "set out = (\<lambda>rec. (rec, parse_actual maxd (Actual_Raw rec))) ` set recs"
    by (auto simp: load_and_process_history_def split: sum.splits if_splits)
  from out assms(2) have "fst a \<in> set recs" by auto
  with history_sheets_Inr[OF recs] show ?thesis by auto
qed

lemma history_sorted:
  assumes "load_and_process_history maxd sheets = Inr out"
  shows "sorted (map (\<lambda>df_row. Workout_Order (fst df_row)) out)"
  using assms by (auto simp: load_and_process_history_def split: sum.splits if_splits)

lemmas history_eval =
  load_and_process_history_def example_gap_def example_ten_def example_lettered_def
  py_int_def py_isdecimal_def digit_value_def code_point_def

text \<open>
  C4. In \<open>example_gap\<close> the row "Squats" comes after a row with an empty name cell. The
  History Extractor emits a record for it (it passes over the blank row and goes on), while
  the exercise block ends at the blank row and the Completion Calculator counts one slot,
  the one of "Push-ups": its result is the result for the sheet without the "Squats" row.
\<close>

theorem history_scans_past_gap:
  "load_and_process_history maxd example_gap =
     Inr [(\<lparr>Sheet = ''Month 1 - Week 2'', Day = ''Workout 1 (Actual)'', Exercise = ''Push-ups'',
              Actual_Raw = ''10, 9, 8'', Workout_Order = 1\<rparr>, Some 27),
          (\<lparr>Sheet = ''Month 1 - Week 2'', Day = ''Workout 1 (Actual)'', Exercise = ''Squats'',
              Actual_Raw = ''12, 12, 12'', Workout_Order = 1\<rparr>, Some 36)]
   \<and> exercise_block (drop 2 (snd (example_gap ! 0)))
       = [[''Push-ups'', ''3'', ''10'', ''60 sec'', ''10, 9, 8'']]
   \<and> calculate_overall_completion example_gap = Inr (1, 1, 100)
   \<and> calculate_overall_completion
        [(''Month 1 - Week 2'', butlast (snd (example_gap ! 0)))] = Inr (1, 1, 100)"
  by (simp add: history_eval sheet_eval parse_eval calculate_overall_completion_def
      count_exercises_block)

text \<open>
  C2, as the code has it. The scan has no guard around \<open>int(day_title[8])\<close>. It returns on
  every snapshot set that follows the data model and whose workout headers all have a
  decimal digit at offset 8. But when a sheet with at least three rows has a named row with
  a non-empty cell in a workout column whose header has no decimal digit at offset 8, the
  whole scan raises and no record of any sheet is returned; on a snapshot set that follows
  the data model the exception is ValueError. (A workout header is never shorter than 9
  characters: \<open>workout_header_length\<close>.)
\<close>

theorem history_scan_raises:
  "(sheets_ok sheets \<and> headers_ok sheets \<longrightarrow>
      (\<exists>out. load_and_process_history maxd sheets = Inr out))
   \<and> ((title, data) \<in> set sheets \<and> 3 \<le> length data \<and> r \<in> set (drop 2 data) \<and> has_name r
        \<and> c < length (data ! 1) \<and> is_workout_actual (data ! 1 ! c)
        \<and> c < length r \<and> r ! c \<noteq> [] \<and> \<not> py_isdecimal (data ! 1 ! c ! 8) \<longrightarrow>
      (\<exists>e. load_and_process_history maxd sheets = Inl e)
      \<and> (sheets_ok sheets \<longrightarrow> load_and_process_history maxd sheets = Inl ValueError))"
proof (intro conjI impI)
  assume "sheets_ok sheets \<and> headers_ok sheets"
  then obtain recs where "history_sheets maxd sheets 0 [] = Inr recs"
    using history_sheets_returns[of sheets maxd 0 "[]"] by blast
  then show "\<exists>out. load_and_process_history maxd sheets = Inr out"
    by (simp add: load_and_process_history_def)
next
  assume bad: "(title, data) \<in> set sheets \<and> 3 \<le> length data \<and> r \<in> set (drop 2 data) \<and> has_name r
        \<and> c < length (data ! 1) \<and> is_workout_actual (data ! 1 ! c)
        \<and> c < length r \<and> r ! c \<noteq> [] \<and> \<not> py_isdecimal (data ! 1 ! c ! 8)"
  then have col: "(c, data ! 1 ! c) \<in> set (workout_cols (data ! 1))"
    by (simp add: workout_cols_headers)
  have no: "history_sheets maxd sheets 0 [] \<noteq> Inr recs" for recs
  proof
    assume "history_sheets maxd sheets 0 [] = Inr recs"
    from history_sheets_Inr[OF this] bad
    have "\<forall>ch\<in>set (workout_cols (data ! 1)).
            fst ch < length r \<and> (r ! fst ch \<noteq> [] \<longrightarrow> header_digit_ok (snd ch))"
      by fastforce
    with col bad have "header_digit_ok (data ! 1 ! c)" by fastforce
    with bad show False by (simp add: header_digit_ok_def)
  qed
  then obtain e where e: "history_sheets maxd sheets 0 [] = Inl e"
    by (cases "history_sheets maxd sheets 0 []") auto
  then show "\<exists>e. load_and_process_history maxd sheets = Inl e"
    by (simp add: load_and_process_history_def)
  assume "sheets_ok sheets"
  from history_sheets_error[OF this e] e
  show "load_and_process_history maxd sheets = Inl ValueError"
    by (simp add: load_and_process_history_def)
qed

lemmas ok_eval =
  sheets_ok_def snapshot_ok_def exercise_row_ok_def headers_ok_def headers_numbered_def
  header_digit_ok_def header_digit_def workout_digits_def

theorem history_scan_raises_witness:
  "(\<exists>out. load_and_process_history 4300 example_plan = Inr out)
   \<and> load_and_process_history 4300 example_lettered = Inl ValueError"
proof -
  have ok: "sheets_ok example_plan \<and> headers_ok example_plan"
    by (simp add: ok_eval sheet_eval py_isdecimal_def code_point_def)
  have bad: "(''Month 1 - Week 4'',
        [[''Week 4'', '''', '''', '''', ''''],
         [''Exercise'', ''Sets'', ''Reps'', ''Rest'', ''Workout A (Actual)''],
         [''Push-ups'', ''3'', ''10'', ''60 sec'', ''10, 9, 8'']]) \<in> set example_lettered"
    by (simp add: example_lettered_def)
  have ok': "sheets_ok example_lettered"
    by (simp add: ok_eval sheet_eval example_lettered_def)
  from history_scan_raises[of example_plan 4300] ok
  have "\<exists>out. load_and_process_history 4300 example_plan = Inr out"
    by blast
  moreover
  from history_scan_raises[of example_lettered 4300 "''Month 1 - Week 4''"
      "[[''Week 4'', '''', '''', '''', ''''],
        [''Exercise'', ''Sets'', ''Reps'', ''Rest'', ''Workout A (Actual)''],
        [''Push-ups'', ''3'', ''10'', ''60 sec'', ''10, 9, 8'']]"
      "[''Push-ups'', ''3'', ''10'', ''60 sec'', ''10, 9, 8'']" 4] bad ok'
  have "load_and_process_history 4300 example_lettered = Inl ValueError"
    by (simp add: has_name_def is_workout_actual_def py_isdecimal_def code_point_def)
  ultimately show ?thesis by simp
qed

text \<open>
  C2 as stated fails: with a lettered workout after the example plan the scan raises
  ValueError, and the four records of the example plan are lost with it.
\<close>

theorem history_scan_lettered_counterexample:
  "load_and_process_history 4300 example_lettered = Inl ValueError
   \<and> load_and_process_history 4300 example_plan =
       Inr [(\<lparr>Sheet = ''Month 1 - Week 1'', Day = ''Workout 1 (Actual)'', Exercise = ''Push-ups'',
                Actual_Raw = ''10, 9, 8'', Workout_Order = 1\<rparr>, Some 27),
            (\<lparr>Sheet = ''Month 1 - Week 1'', Day = ''Workout 1 (Actual)'', Exercise = ''Plank'',
                Actual_Raw = ''45 sec'', Workout_Order = 1\<rparr>, Some 45),
            (\<lparr>Sheet = ''Month 1 - Week 1'', Day = ''Workout 1 (Actual)'', Exercise = ''Squats'',
                Actual_Raw = ''12, 12, 12'', Workout_Order = 1\<rparr>, Some 36),
            (\<lparr>Sheet = ''Month 1 - Week 1'', Day = ''Workout 2 (Actual)'', Exercise = ''Push-ups'',
                Actual_Raw = ''10, 10, 9'', Workout_Order = 2\<rparr>, Some 29)]"
  by (simp add: history_eval sheet_eval parse_eval)

lemma sheet_index_unique:
  assumes "distinct (map fst sheets)" and "i < length sheets" and "j < length sheets"
    and "fst (sheets ! i) = fst (sheets ! j)"
  shows "i = j"
  using nth_eq_iff_index_eq[OF assms(1), of i j] assms(2,3,4) by simp

lemma numbered_sheet:
  assumes "headers_numbered sheets" and "i < length sheets" and "3 \<le> length (snd (sheets ! i))"
  shows "sorted_wrt (<) (workout_digits (snd (sheets ! i) ! 1))"
    and "\<forall>ch\<in>set (workout_cols (snd (sheets ! i) ! 1)).
           header_digit (snd ch) \<le> workout_count [sheets ! i]"
proof -
  from assms(1,2) have
    "length (snd (sheets ! i)) < 3
       \<or> (sorted_wrt (<) (workout_digits (snd (sheets ! i) ! 1))
          \<and> list_all (\<lambda>d. d \<le> length (workout_cols (snd (sheets ! i) ! 1)))
               (workout_digits (snd (sheets ! i) ! 1)))"
    by (simp add: headers_numbered_def list_all_length)
  with assms(3) have s: "sorted_wrt (<) (workout_digits (snd (sheets ! i) ! 1))"
    and b: "list_all (\<lambda>d. d \<le> length (workout_cols (snd (sheets ! i) ! 1)))
               (workout_digits (snd (sheets ! i) ! 1))"
    by simp_all
  show "sorted_wrt (<) (workout_digits (snd (sheets ! i) ! 1))" by (rule s)
  have "workout_count [sheets ! i] = length (workout_cols (snd (sheets ! i) ! 1))"
    using assms(3) by (cases "sheets ! i") simp
  with b show "\<forall>ch\<in>set (workout_cols (snd (sheets ! i) ! 1)).
           header_digit (snd ch) \<le> workout_count [sheets ! i]"
    by (simp add: list_all_iff workout_digits_def)
qed

text \<open>
  C6, as the code has it. Every record's ordinal is the number of workout columns of the
  sheets before its own (those with at least three rows) plus the digit at offset 8 of its
  column's header, and the returned sequence is sorted by it. When, in every sheet, these
  digits strictly increase in header order and none exceeds the sheet's number of workout
  columns, the ordinals of a sheet's records strictly increase in header-column order, and
  every ordinal of a later sheet is greater than or equal to every ordinal of an earlier
  sheet. Sheet titles are the keys of a dict and so distinct.
\<close>

theorem history_ordinals:
  assumes dict: "distinct (map fst sheets)" and num: "headers_numbered sheets"
    and run: "load_and_process_history maxd sheets = Inr out"
  shows "sorted (map (\<lambda>df_row. Workout_Order (fst df_row)) out)
    \<and> (\<forall>a\<in>set out. \<exists>i<length sheets. Sheet (fst a) = fst (sheets ! i)
          \<and> Workout_Order (fst a) = workout_count (take i sheets) + header_digit (Day (fst a)))
    \<and> (\<forall>a\<in>set out. \<forall>b\<in>set out. \<forall>title data c1 c2.
          (title, data) \<in> set sheets \<and> Sheet (fst a) = title \<and> Sheet (fst b) = title
          \<and> c1 < c2 \<and> c2 < length (data ! 1)
          \<and> is_workout_actual (data ! 1 ! c1) \<and> is_workout_actual (data ! 1 ! c2)
          \<and> Day (fst a) = data ! 1 ! c1 \<and> Day (fst b) = data ! 1 ! c2
          \<longrightarrow> Workout_Order (fst a) < Workout_Order (fst b))
    \<and> (\<forall>a\<in>set out. \<forall>b\<in>set out. \<forall>i j.
          i < j \<and> j < length sheets
          \<and> Sheet (fst a) = fst (sheets ! i) \<and> Sheet (fst b) = fst (sheets ! j)
          \<longrightarrow> Workout_Order (fst a) \<le> Workout_Order (fst b))"
proof (intro conjI ballI allI impI)
  show "sorted (map (\<lambda>df_row. Workout_Order (fst df_row)) out)"
    by (rule history_sorted[OF run])
next
  fix a assume "a \<in> set out"
  from history_origin[OF run this]
  show "\<exists>i<length sheets. Sheet (fst a) = fst (sheets ! i)
          \<and> Workout_Order (fst a) = workout_count (take i sheets) + header_digit (Day (fst a))"
    by (auto simp: from_column_def)
next
  fix a b title data c1 c2
  assume a: "a \<in> set out" and b: "b \<in> set out"
    and h: "(title, data) \<in> set sheets \<and> Sheet (fst a) = title \<and> Sheet (fst b) = title
          \<and> c1 < c2 \<and> c2 < length (data ! 1)
          \<and> is_workout_actual (data ! 1 ! c1) \<and> is_workout_actual (data ! 1 ! c2)
          \<and> Day (fst a) = data ! 1 ! c1 \<and> Day (fst b) = data ! 1 ! c2"
  from h obtain m where m: "m < length sheets" "sheets ! m = (title, data)"
    by (auto simp: in_set_conv_nth)
  from history_origin[OF run a] obtain i where i: "i < length sheets"
    "3 \<le> length (snd (sheets ! i))"
    "from_column (fst (sheets ! i)) (workout_count (take i sheets))
       (workout_cols (snd (sheets ! i) ! 1)) (fst a)"
    by blast
  from history_origin[OF run b] obtain j where j: "j < length sheets"
    "from_column (fst (sheets ! j)) (workout_count (take j sheets))
       (workout_cols (snd (sheets ! j) ! 1)) (fst b)"
    by blast
  from i(3) h m have "i = m"
    by (intro sheet_index_unique[OF dict i(1) m(1)]) (simp add: from_column_def)
  moreover from j(2) h m have "j = m"
    by (intro sheet_index_unique[OF dict j(1) m(1)]) (simp add: from_column_def)
  ultimately have ij: "i = m" "j = m" by simp_all
  from i(3) h have oa: "Workout_Order (fst a)
      = workout_count (take m sheets) + header_digit (data ! 1 ! c1)"
    by (auto simp: from_column_def ij)
  from j(2) h have ob: "Workout_Order (fst b)
      = workout_count (take m sheets) + header_digit (data ! 1 ! c2)"
    by (auto simp: from_column_def ij)
  from numbered_sheet(1)[OF num i(1,2)] m
  have srt: "sorted_wrt (<) (map (\<lambda>ch. header_digit (snd ch))
               (filter (\<lambda>(i, h). is_workout_actual h) (enumerate 0 (data ! 1))))"
    by (simp add: ij workout_digits_def workout_cols_def)
  from h have mem: "(c1, data ! 1 ! c1) \<in> set (enumerate 0 (data ! 1))"
    "(c2, data ! 1 ! c2) \<in> set (enumerate 0 (data ! 1))"
    by (simp_all add: in_set_enumerate_eq)
  from h have "header_digit (data ! 1 ! c1) < header_digit (data ! 1 ! c2)"
    by (intro sorted_filter_enumerate[OF srt mem]) simp_all
  with oa ob show "Workout_Order (fst a) < Workout_Order (fst b)" by simp
next
  fix a b i j
  assume a: "a \<in> set out" and b: "b \<in> set out"
    and h: "i < j \<and> j < length sheets
          \<and> Sheet (fst a) = fst (sheets ! i) \<and> Sheet (fst b) = fst (sheets ! j)"
  from history_origin[OF run a] obtain i' where i': "i' < length sheets"
    "3 \<le> length (snd (sheets ! i'))"
    "from_column (fst (sheets ! i')) (workout_count (take i' sheets))
       (workout_cols (snd (sheets ! i') ! 1)) (fst a)"
    by blast
  from history_origin[OF run b] obtain j' where j': "j' < length sheets"
    "from_column (fst (sheets ! j')) (workout_count (take j' sheets))
       (workout_cols (snd (sheets ! j') ! 1)) (fst b)"
    by blast
  from h have il: "i < length sheets" by simp
  from i'(3) h have "i' = i"
    by (intro sheet_index_unique[OF dict i'(1) il]) (simp add: from_column_def)
  moreover from j'(2) h have "j' = j"
    by (intro sheet_index_unique[OF dict j'(1)]) (simp_all add: from_column_def)
  ultimately have eq: "i' = i" "j' = j" by simp_all
  from i'(3) obtain ch where ch: "ch \<in> set (workout_cols (snd (sheets ! i) ! 1))"
    "Workout_Order (fst a) = workout_count (take i sheets) + header_digit (snd ch)"
    by (auto simp: from_column_def eq)
  from numbered_sheet(2)[OF num i'(1,2)] ch(1)
  have "header_digit (snd ch) \<le> workout_count [sheets ! i]"
    by (simp add: eq)
  with ch(2) have "Workout_Order (fst a)
      \<le> workout_count (take i sheets) + workout_count [sheets ! i]"
    by simp
  also from h have "\<dots> \<le> workout_count (take j sheets)"
    by (intro workout_count_take_mono) simp_all
  also from j'(2) have "\<dots> \<le> Workout_Order (fst b)"
    by (auto simp: from_column_def eq)
  finally show "Workout_Order (fst a) \<le> Workout_Order (fst b)" .
qed

theorem history_ordinals_witness:
  "distinct (map fst example_plan) \<and> headers_numbered example_plan
   \<and> load_and_process_history 4300 example_plan =
       Inr [(\<lparr>Sheet = ''Month 1 - Week 1'', Day = ''Workout 1 (Actual)'', Exercise = ''Push-ups'',
                Actual_Raw = ''10, 9, 8'', Workout_Order = 1\<rparr>, Some 27),
            (\<lparr>Sheet = ''Month 1 - Week 1'', Day = ''Workout 1 (Actual)'', Exercise = ''Plank'',
                Actual_Raw = ''45 sec'', Workout_Order = 1\<rparr>, Some 45),
            (\<lparr>Sheet = ''Month 1 - Week 1'', Day = ''Workout 1 (Actual)'', Exercise = ''Squats'',
                Actual_Raw = ''12, 12, 12'', Workout_Order = 1\<rparr>, Some 36),
            (\<lparr>Sheet = ''Month 1 - Week 1'', Day = ''Workout 2 (Actual)'', Exercise = ''Push-ups'',
                Actual_Raw = ''10, 10, 9'', Workout_Order = 2\<rparr>, Some 29)]
   \<and> Workout_Order \<lparr>Sheet = ''Month 1 - Week 1'', Day = ''Workout 1 (Actual)'',
                       Exercise = ''Squats'', Actual_Raw = ''12, 12, 12'', Workout_Order = 1\<rparr>
       < Workout_Order \<lparr>Sheet = ''Month 1 - Week 1'', Day = ''Workout 2 (Actual)'',
                         Exercise = ''Push-ups'', Actual_Raw = ''10, 10, 9'', Workout_Order = 2\<rparr>"
proof -
  let ?a = "(\<lparr>Sheet = ''Month 1 - Week 1'', Day = ''Workout 1 (Actual)'', Exercise = ''Squats'',
                Actual_Raw = ''12, 12, 12'', Workout_Order = 1\<rparr>, Some (36::nat))"
  let ?b = "(\<lparr>Sheet = ''Month 1 - Week 1'', Day = ''Workout 2 (Actual)'', Exercise = ''Push-ups'',
                Actual_Raw = ''10, 10, 9'', Workout_Order = 2\<rparr>, Some (29::nat))"
  let ?out = "[(\<lparr>Sheet = ''Month 1 - Week 1'', Day = ''Workout 1 (Actual)'', Exercise = ''Push-ups'',
                Actual_Raw = ''10, 9, 8'', Workout_Order = 1\<rparr>, Some (27::nat)),
            (\<lparr>Sheet = ''Month 1 - Week 1'', Day = ''Workout 1 (Actual)'', Exercise = ''Plank'',
                Actual_Raw = ''45 sec'', Workout_Order = 1\<rparr>, Some 45),
            ?a, ?b]"
  have d: "distinct (map fst example_plan)"
    by (simp add: example_plan_def)
  have n: "headers_numbered example_plan"
    by (simp add: ok_eval sheet_eval digit_value_def code_point_def)
  have run: "load_and_process_history 4300 example_plan = Inr ?out"
    by (simp add: history_eval sheet_eval parse_eval)
  have sheet: "(''Month 1 - Week 1'', example_week) \<in> set example_plan"
    by (simp add: example_plan_def)
  note order = history_ordinals[OF d n run, THEN conjunct2, THEN conjunct2, THEN conjunct1,
      rule_format, of ?a ?b "''Month 1 - Week 1''" example_week 4 5]
  have "Workout_Order (fst ?a) < Workout_Order (fst ?b)"
    by (rule order) (simp_all add: sheet, simp_all add: example_week_def is_workout_actual_def)
  with d n run show ?thesis by simp
qed

text \<open>
  C6 as stated fails: with workouts numbered 9 and 10 the digit at offset 8 of "Workout 10"
  is 1, so the record of the later column (offset 5) has ordinal 1 and the record of the
  earlier column (offset 4) has ordinal 9.
\<close>

theorem history_ordinals_counterexample:
  "workout_cols (snd (example_ten ! 0) ! 1)
     = [(4, ''Workout 9 (Actual)''), (5, ''Workout 10 (Actual)'')]
   \<and> load_and_process_history 4300 example_ten =
       Inr [(\<lparr>Sheet = ''Month 1 - Week 3'', Day = ''Workout 10 (Actual)'', Exercise = ''Push-ups'',
                Actual_Raw = ''9, 9, 9'', Workout_Order = 1\<rparr>, Some 27),
            (\<lparr>Sheet = ''Month 1 - Week 3'', Day = ''Workout 9 (Actual)'', Exercise = ''Push-ups'',
                Actual_Raw = ''10, 9, 8'', Workout_Order = 9\<rparr>, Some 27)]"
  by (simp add: history_eval sheet_eval parse_eval)

end
